theory Spec2Isabelle
  imports Main
begin

section \<open>The InferenceService reconciliation loop (controller.go)\<close>

text \<open>
  A shallow embedding of \<^verbatim>\<open>pkg/controller/v1beta1/inferenceservice/controller.go\<close>:
  \<^verbatim>\<open>Reconcile\<close>, \<^verbatim>\<open>updateStatus\<close> and \<^verbatim>\<open>inferenceServiceReadiness\<close>.
  The controller talks to collaborators that live outside this file (the store client,
  the configuration loaders, the component and ingress reconcilers, the event recorder
  and the logger). Every call to one of them is a step on an explicit world \<open>'w\<close>, and
  every function of the controller returns, beside its Go result, the list of the calls
  it made, in the order it made them.
\<close>

subsection \<open>Data\<close>

text \<open>\<^verbatim>\<open>types.NamespacedName{Namespace, Name}\<close>: the first argument is the namespace.\<close>

datatype NamespacedName = NamespacedName string string

text \<open>
  Go errors. \<^verbatim>\<open>errors.Wrapf(err, msg)\<close> keeps the cause and adds a message;
  \<^verbatim>\<open>err.Error()\<close> of a wrapped error is the message, a colon and the cause's text.
\<close>

datatype error = New string | Wrapf error string

fun Error :: "error \<Rightarrow> string" where
  "Error (New m) = m"
| "Error (Wrapf cause m) = m @ '': '' @ Error cause"

text \<open>
  A condition of the status (\<^verbatim>\<open>apis.Condition\<close>); \<^verbatim>\<open>Status\<close> is a string in Go, of which
  \<^verbatim>\<open>"True"\<close>, \<^verbatim>\<open>"False"\<close> and \<^verbatim>\<open>"Unknown"\<close> are the three named values.
\<close>

record Condition =
  Type :: string
  ConditionStatus :: string
  Reason :: string
  Message :: string

definition ConditionReady :: string where
  "ConditionReady = ''Ready''"

definition ConditionTrue :: string where
  "ConditionTrue = ''True''"

definition ConditionFalse :: string where
  "ConditionFalse = ''False''"

definition ConditionUnknown :: string where
  "ConditionUnknown = ''Unknown''"

text \<open>
  Modelled from the spec: the declaration of \<^verbatim>\<open>InferenceServiceStatus\<close> is in the api
  package, not in this file. The status is "a set of named conditions plus
  component-specific state": \<open>Conditions\<close> is a Go slice, so \<open>None\<close> is the nil slice,
  and the component-specific state is kept opaque.
\<close>

record InferenceServiceStatus =
  Conditions :: "Condition list option"
  ComponentState :: string

text \<open>
  Modelled from the spec: the declaration of \<^verbatim>\<open>InferenceServiceSpec\<close> is in the api
  package. The spec "declares whether transformer/explainer are requested, plus
  parameters opaque to the core"; \<open>Transformer\<close> and \<open>Explainer\<close> are pointers in Go,
  \<open>None\<close> the nil pointer.
\<close>

record InferenceServiceSpec =
  Predictor :: string
  Transformer :: "string option"
  Explainer :: "string option"

record InferenceService =
  APIVersion :: string
  Namespace :: string
  Name :: string
  Spec :: InferenceServiceSpec
  Status :: InferenceServiceStatus

text \<open>\<^verbatim>\<open>reconcile.Result\<close>; \<^verbatim>\<open>reconcile.Result{}\<close> and \<^verbatim>\<open>ctrl.Result{}\<close> are its zero value.\<close>

record Result =
  Requeue :: bool
  RequeueAfter :: int

definition Result_zero :: Result where
  "Result_zero = \<lparr>Requeue = False, RequeueAfter = 0\<rparr>"

definition EventTypeNormal :: string where
  "EventTypeNormal = ''Normal''"

definition EventTypeWarning :: string where
  "EventTypeWarning = ''Warning''"

text \<open>
  The component reconcilers and the ingress reconciler are values built from the loaded
  configuration (\<^verbatim>\<open>components.NewPredictor(r.Client, r.Scheme, isvcConfig)\<close> and so on);
  the configurations themselves are opaque here.
\<close>

type_synonym InferenceServicesConfig = string
type_synonym IngressConfig = string

datatype Component =
    NewPredictor InferenceServicesConfig
  | NewTransformer InferenceServicesConfig
  | NewExplainer InferenceServicesConfig

datatype IngressReconciler = NewIngressReconciler IngressConfig

subsection \<open>Calls to the collaborators\<close>

datatype logval = LString string | LReconciler Component

datatype arg = ArgString string | ArgError error

text \<open>
  One entry per call that leaves the controller, with its arguments and, for a call that
  returns something, what it returned. \<open>Eventf obj eventtype reason fmt args\<close> is
  \<^verbatim>\<open>r.Recorder.Eventf\<close> (a notification attached to \<open>obj\<close>), \<open>ClientStatusUpdate\<close> is
  \<^verbatim>\<open>r.Status().Update\<close> (the only store write of the file) and \<open>ClientGet\<close> is \<^verbatim>\<open>r.Get\<close>.
\<close>

datatype action =
    ClientGet NamespacedName "error + InferenceService"
  | ClientStatusUpdate InferenceService "error option"
  | LoadInferenceServicesConfig "error + InferenceServicesConfig"
  | LoadIngressConfig "error + IngressConfig"
  | ComponentReconcile Component InferenceService "error option"
  | IngressReconcile IngressReconciler InferenceService "error option"
  | LogInfo string "(string \<times> logval) list"
  | LogError error string "(string \<times> logval) list"
  | Eventf InferenceService string string string "arg list"

text \<open>
  The collaborators, as the controller sees them. Each one may read and change the world.
  A component reconciler and the ingress reconciler mutate the object they are given in
  place ("mutates \<^verbatim>\<open>object.status\<close> in place"), so they return it, on failure too. The
  store's status update is \<^verbatim>\<open>UpdateStatus(object) -> (ok, error)\<close>: it returns its error
  only, and the object it was given is read afterwards as it was sent.
  \<open>IsNotFound\<close> is \<^verbatim>\<open>apierr.IsNotFound\<close>. The two reason strings are constants of the
  \<^verbatim>\<open>v1alpha2\<close> api package, which is not part of this file.
\<close>

record 'w Env =
  clientGet :: "NamespacedName \<Rightarrow> 'w \<Rightarrow> (error + InferenceService) \<times> 'w"
  clientStatusUpdate :: "InferenceService \<Rightarrow> 'w \<Rightarrow> error option \<times> 'w"
  IsNotFound :: "error \<Rightarrow> bool"
  NewInferenceServicesConfig :: "'w \<Rightarrow> (error + InferenceServicesConfig) \<times> 'w"
  NewIngressConfig :: "'w \<Rightarrow> (error + IngressConfig) \<times> 'w"
  componentReconcile :: "Component \<Rightarrow> InferenceService \<Rightarrow> 'w \<Rightarrow> error option \<times> InferenceService \<times> 'w"
  ingressReconcile :: "IngressReconciler \<Rightarrow> InferenceService \<Rightarrow> 'w \<Rightarrow> error option \<times> InferenceService \<times> 'w"
  InferenceServiceReadyState :: string
  InferenceServiceNotReadyState :: string

subsection \<open>The readiness evaluator\<close>

text \<open>
  Modelled from the spec: \<^verbatim>\<open>status.GetCondition\<close> is a method of the api package. It
  returns the condition of the given name when one "is present" in the condition set, the
  first one in slice order, and nil otherwise.
\<close>

definition GetCondition :: "InferenceServiceStatus \<Rightarrow> string \<Rightarrow> Condition option" where
  "GetCondition status t =
     (case Conditions status of
        None \<Rightarrow> None
      | Some cs \<Rightarrow> find (\<lambda>c. Type c = t) cs)"

definition inferenceServiceReadiness :: "InferenceServiceStatus \<Rightarrow> bool" where
  "inferenceServiceReadiness status \<longleftrightarrow>
     Conditions status \<noteq> None \<and>
     (case GetCondition status ConditionReady of
        None \<Rightarrow> False
      | Some c \<Rightarrow> ConditionStatus c = ConditionTrue)"

subsection \<open>The status commit\<close>

text \<open>
  \<^verbatim>\<open>equality.Semantic.DeepEqual\<close> on two statuses: field by field and element by element,
  with a nil slice and an empty slice taken as equal.
\<close>

definition sliceOf :: "'a list option \<Rightarrow> 'a list" where
  "sliceOf xs = (case xs of None \<Rightarrow> [] | Some ys \<Rightarrow> ys)"

definition DeepEqual :: "InferenceServiceStatus \<Rightarrow> InferenceServiceStatus \<Rightarrow> bool" where
  "DeepEqual a b \<longleftrightarrow>
     sliceOf (Conditions a) = sliceOf (Conditions b) \<and> ComponentState a = ComponentState b"

definition updateStatus ::
  "'w Env \<Rightarrow> InferenceService \<Rightarrow> 'w \<Rightarrow> error option \<times> action list \<times> 'w" where
  "updateStatus r desiredService w =
     (let namespacedName = NamespacedName (Namespace desiredService) (Name desiredService) in
      case clientGet r namespacedName w of
        (Inl err, w1) \<Rightarrow> (Some err, [ClientGet namespacedName (Inl err)], w1)
      | (Inr existingService, w1) \<Rightarrow>
          (let wasReady = inferenceServiceReadiness (Status existingService) in
           if DeepEqual (Status existingService) (Status desiredService)
           then (None, [ClientGet namespacedName (Inr existingService)], w1)
           else
             (case clientStatusUpdate r desiredService w1 of
                (Some err, w2) \<Rightarrow>
                  (Some (Wrapf err ''fails to update InferenceService status''),
                   [ClientGet namespacedName (Inr existingService),
                    ClientStatusUpdate desiredService (Some err),
                    LogError err ''Failed to update InferenceService status''
                      [(''InferenceService'', LString (Name desiredService))],
                    Eventf desiredService EventTypeWarning ''UpdateFailed''
                      ''Failed to update status for InferenceService %q: %v''
                      [ArgString (Name desiredService), ArgError err]],
                   w2)
              | (None, w2) \<Rightarrow>
                  (let isReady = inferenceServiceReadiness (Status desiredService) in
                   (None,
                    [ClientGet namespacedName (Inr existingService),
                     ClientStatusUpdate desiredService None] @
                    (if wasReady \<and> \<not> isReady
                     then [Eventf desiredService EventTypeWarning (InferenceServiceNotReadyState r)
                             (''InferenceService ['' @ Name desiredService @ ''] is no longer Ready'') []]
                     else if \<not> wasReady \<and> isReady
                     then [Eventf desiredService EventTypeNormal (InferenceServiceReadyState r)
                             (''InferenceService ['' @ Name desiredService @ ''] is Ready'') []]
                     else []),
                    w2)))))"

subsection \<open>The reconcile pass\<close>

text \<open>Lines 81 to 89: the predictor, then the transformer and the explainer when requested.\<close>

definition reconcilers :: "InferenceServicesConfig \<Rightarrow> InferenceService \<Rightarrow> Component list" where
  "reconcilers isvcConfig isvc =
     [NewPredictor isvcConfig] @
     (if Transformer (Spec isvc) \<noteq> None then [NewTransformer isvcConfig] else []) @
     (if Explainer (Spec isvc) \<noteq> None then [NewExplainer isvcConfig] else [])"

text \<open>
  Lines 90 to 96: the loop over the reconcilers. The first component is the error that
  \<^verbatim>\<open>Reconcile\<close> returns from inside the loop, if it does.
\<close>

fun reconcileComponents ::
  "'w Env \<Rightarrow> Component list \<Rightarrow> InferenceService \<Rightarrow> 'w \<Rightarrow>
   error option \<times> InferenceService \<times> action list \<times> 'w" where
  "reconcileComponents r [] isvc w = (None, isvc, [], w)"
| "reconcileComponents r (reconciler # rest) isvc w =
     (case componentReconcile r reconciler isvc w of
        (Some err, isvc1, w1) \<Rightarrow>
          (Some (Wrapf err ''fails to reconcile component''), isvc1,
           [ComponentReconcile reconciler isvc (Some err),
            LogError err ''Failed to reconcile''
              [(''reconciler'', LReconciler reconciler), (''Name'', LString (Name isvc1))],
            Eventf isvc1 EventTypeWarning ''InternalError'' (Error err) []],
           w1)
      | (None, isvc1, w1) \<Rightarrow>
          (case reconcileComponents r rest isvc1 w1 of
             (res, isvc2, calls, w2) \<Rightarrow>
               (res, isvc2, ComponentReconcile reconciler isvc None # calls, w2)))"

text \<open>
  Lines 63 to 106 of \<^verbatim>\<open>Reconcile\<close>: the fetch, the configuration, the component loop and
  the ingress reconciler. The result is \<open>Inl\<close> of what \<^verbatim>\<open>Reconcile\<close> returns when it
  returns from one of these lines, and \<open>Inr\<close> of the object that reaches
  \<^verbatim>\<open>r.updateStatus(isvc)\<close> on line 108 otherwise.
\<close>

definition converge ::
  "'w Env \<Rightarrow> NamespacedName \<Rightarrow> 'w \<Rightarrow>
   ((Result \<times> error option) + InferenceService) \<times> action list \<times> 'w" where
  "converge r req w =
     (case clientGet r req w of
        (Inl err, w1) \<Rightarrow>
          (if IsNotFound r err
           then (Inl (Result_zero, None), [ClientGet req (Inl err)], w1)
           else (Inl (Result_zero, Some err), [ClientGet req (Inl err)], w1))
      | (Inr isvc, w1) \<Rightarrow>
          (let pre = [ClientGet req (Inr isvc),
                      LogInfo ''Reconciling inference service''
                        [(''apiVersion'', LString (APIVersion isvc)), (''isvc'', LString (Name isvc))]] in
           case NewInferenceServicesConfig r w1 of
             (Inl err, w2) \<Rightarrow>
               (Inl (Result_zero, Some (Wrapf err ''fails to create InferenceServicesConfig'')),
                pre @ [LoadInferenceServicesConfig (Inl err)], w2)
           | (Inr isvcConfig, w2) \<Rightarrow>
               (let pre = pre @ [LoadInferenceServicesConfig (Inr isvcConfig)] in
                case reconcileComponents r (reconcilers isvcConfig isvc) isvc w2 of
                  (Some err, isvc1, calls, w3) \<Rightarrow> (Inl (Result_zero, Some err), pre @ calls, w3)
                | (None, isvc1, calls, w3) \<Rightarrow>
                    (case NewIngressConfig r w3 of
                       (Inl err, w4) \<Rightarrow>
                         (Inl (Result_zero, Some (Wrapf err ''fails to create IngressConfig'')),
                          pre @ calls @ [LoadIngressConfig (Inl err)], w4)
                     | (Inr ingressConfig, w4) \<Rightarrow>
                         (let reconciler = NewIngressReconciler ingressConfig;
                              mid = pre @ calls @
                                    [LoadIngressConfig (Inr ingressConfig),
                                     LogInfo ''Reconciling ingress for inference service''
                                       [(''isvc'', LString (Name isvc1))]] in
                          case ingressReconcile r reconciler isvc1 w4 of
                            (Some err, isvc2, w5) \<Rightarrow>
                              (Inl (Result_zero, Some (Wrapf err ''fails to reconcile ingress'')),
                               mid @ [IngressReconcile reconciler isvc1 (Some err)], w5)
                          | (None, isvc2, w5) \<Rightarrow>
                              (Inr isvc2, mid @ [IngressReconcile reconciler isvc1 None], w5))))))"

text \<open>Lines 108 to 113: the status commit, and the warning when it fails.\<close>

definition Reconcile ::
  "'w Env \<Rightarrow> NamespacedName \<Rightarrow> 'w \<Rightarrow> (Result \<times> error option) \<times> action list \<times> 'w" where
  "Reconcile r req w =
     (case converge r req w of
        (Inl ret, calls, w1) \<Rightarrow> (ret, calls, w1)
      | (Inr isvc, calls, w1) \<Rightarrow>
          (case updateStatus r isvc w1 of
             (Some err, calls2, w2) \<Rightarrow>
               ((Result_zero, Some err),
                calls @ calls2 @ [Eventf isvc EventTypeWarning ''InternalError'' (Error err) []],
                w2)
           | (None, calls2, w2) \<Rightarrow> ((Result_zero, None), calls @ calls2, w2)))"

subsection \<open>Reading the calls of a pass\<close>

fun componentCalls :: "action list \<Rightarrow> Component list" where
  "componentCalls [] = []"
| "componentCalls (ComponentReconcile c isvc res # as) = c # componentCalls as"
| "componentCalls (a # as) = componentCalls as"

fun ingressCalls :: "action list \<Rightarrow> IngressReconciler list" where
  "ingressCalls [] = []"
| "ingressCalls (IngressReconcile i isvc res # as) = i # ingressCalls as"
| "ingressCalls (a # as) = ingressCalls as"

fun storeWrites :: "action list \<Rightarrow> InferenceService list" where
  "storeWrites [] = []"
| "storeWrites (ClientStatusUpdate isvc res # as) = isvc # storeWrites as"
| "storeWrites (a # as) = storeWrites as"

fun storeGets :: "action list \<Rightarrow> NamespacedName list" where
  "storeGets [] = []"
| "storeGets (ClientGet key res # as) = key # storeGets as"
| "storeGets (a # as) = storeGets as"

fun isEvent :: "action \<Rightarrow> bool" where
  "isEvent (Eventf obj eventtype reason fmt args) = True"
| "isEvent a = False"

definition events :: "action list \<Rightarrow> action list" where
  "events as = filter isEvent as"

text \<open>The entries of the component reconcilers' invocations.\<close>

fun isComponentCall :: "action \<Rightarrow> bool" where
  "isComponentCall (ComponentReconcile c isvc res) = True"
| "isComponentCall a = False"

text \<open>
  Replaying such entries against the collaborators, from an object and a world: each entry
  has to be the invocation of its reconciler on the object at hand, with the error that
  this reconciler returns there; the next entry is replayed on the object and in the world
  that it leaves. The result is the object and the world left at the end, if every entry
  is such an invocation.
\<close>

fun replay ::
  "'w Env \<Rightarrow> InferenceService \<Rightarrow> 'w \<Rightarrow> action list \<Rightarrow> (InferenceService \<times> 'w) option" where
  "replay r isvc w [] = Some (isvc, w)"
| "replay r isvc w (ComponentReconcile c obj res # entries) =
     (case componentReconcile r c isvc w of
        (res1, isvc1, w1) \<Rightarrow>
          if obj = isvc \<and> res = res1 then replay r isvc1 w1 entries else None)"
| "replay r isvc w (a # entries) = None"

text \<open>Whether a component reconciler, or the ingress reconciler, returned an error.\<close>

fun componentFailed :: "action \<Rightarrow> bool" where
  "componentFailed (ComponentReconcile c isvc (Some err)) = True"
| "componentFailed a = False"

fun ingressFailed :: "action \<Rightarrow> bool" where
  "ingressFailed (IngressReconcile i isvc (Some err)) = True"
| "ingressFailed a = False"

text \<open>
  The two readiness notifications of \<^verbatim>\<open>updateStatus\<close> (lines 137 and 140): the warning
  that the service is no longer ready, and the normal event that it is ready.
\<close>

definition notReadyEvent :: "'w Env \<Rightarrow> InferenceService \<Rightarrow> action" where
  "notReadyEvent r desiredService =
     Eventf desiredService EventTypeWarning (InferenceServiceNotReadyState r)
       (''InferenceService ['' @ Name desiredService @ ''] is no longer Ready'') []"

definition readyEvent :: "'w Env \<Rightarrow> InferenceService \<Rightarrow> action" where
  "readyEvent r desiredService =
     Eventf desiredService EventTypeNormal (InferenceServiceReadyState r)
       (''InferenceService ['' @ Name desiredService @ ''] is Ready'') []"

text \<open>The key under which \<^verbatim>\<open>updateStatus\<close> fetches the object again (line 118).\<close>

definition keyOf :: "InferenceService \<Rightarrow> NamespacedName" where
  "keyOf desiredService = NamespacedName (Namespace desiredService) (Name desiredService)"

text \<open>What every pass that fetched the object starts with: the fetch and the first log line.\<close>

definition fetched :: "NamespacedName \<Rightarrow> InferenceService \<Rightarrow> action list" where
  "fetched req isvc =
     [ClientGet req (Inr isvc),
      LogInfo ''Reconciling inference service''
        [(''apiVersion'', LString (APIVersion isvc)), (''isvc'', LString (Name isvc))]]"

subsection \<open>A scripted environment, for concrete passes\<close>

text \<open>
  The world is the number of \<^verbatim>\<open>r.Get\<close> calls made so far; the store answers the \<open>n\<close>-th
  of them with \<open>gets n\<close>. The other collaborators answer as given: \<open>cmp\<close> and \<open>ing\<close> give
  the error and the mutated object of a component and of the ingress reconciler.
\<close>

definition scriptEnv ::
  "(nat \<Rightarrow> error + InferenceService) \<Rightarrow> (error + InferenceServicesConfig) \<Rightarrow>
   (Component \<Rightarrow> InferenceService \<Rightarrow> error option \<times> InferenceService) \<Rightarrow>
   (error + IngressConfig) \<Rightarrow> (InferenceService \<Rightarrow> error option \<times> InferenceService) \<Rightarrow>
   error option \<Rightarrow> nat Env" where
  "scriptEnv gets cfg cmp icfg ing upd =
     \<lparr>clientGet = (\<lambda>key n. (gets n, Suc n)),
      clientStatusUpdate = (\<lambda>isvc n. (upd, n)),
      IsNotFound = (\<lambda>err. err = New ''not found''),
      NewInferenceServicesConfig = (\<lambda>n. (cfg, n)),
      NewIngressConfig = (\<lambda>n. (icfg, n)),
      componentReconcile = (\<lambda>c isvc n. (fst (cmp c isvc), snd (cmp c isvc), n)),
      ingressReconcile = (\<lambda>i isvc n. (fst (ing isvc), snd (ing isvc), n)),
      InferenceServiceReadyState = ''InferenceServiceReady'',
      InferenceServiceNotReadyState = ''InferenceServiceNotReady''\<rparr>"

definition mkCondition :: "string \<Rightarrow> string \<Rightarrow> Condition" where
  "mkCondition t v = \<lparr>Type = t, ConditionStatus = v, Reason = [], Message = []\<rparr>"

definition mkStatus :: "Condition list option \<Rightarrow> InferenceServiceStatus" where
  "mkStatus cs = \<lparr>Conditions = cs, ComponentState = []\<rparr>"

definition iris :: "string option \<Rightarrow> string option \<Rightarrow> InferenceServiceStatus \<Rightarrow> InferenceService" where
  "iris t e st =
     \<lparr>APIVersion = ''serving.kubeflow.org/v1beta1'', Namespace = ''default'', Name = ''iris'',
      Spec = \<lparr>Predictor = ''sklearn'', Transformer = t, Explainer = e\<rparr>, Status = st\<rparr>"

definition irisKey :: NamespacedName where
  "irisKey = NamespacedName ''default'' ''iris''"

text \<open>Sub-reconcilers that succeed and set the status of the object to \<open>st\<close>.\<close>

definition setsStatus ::
  "InferenceServiceStatus \<Rightarrow> InferenceService \<Rightarrow> error option \<times> InferenceService" where
  "setsStatus st isvc = (None, isvc\<lparr>Status := st\<rparr>)"

definition failsWith :: "error \<Rightarrow> InferenceService \<Rightarrow> error option \<times> InferenceService" where
  "failsWith err isvc = (Some err, isvc)"

text \<open>The object is gone: every fetch reports "not found".\<close>

definition gone :: "nat Env" where
  "gone = scriptEnv (\<lambda>n. Inl (New ''not found'')) (Inr ''config'') (\<lambda>c. setsStatus (mkStatus None))
            (Inr ''ingress'') (setsStatus (mkStatus None)) None"

text \<open>The store cannot be reached: every fetch fails with another error.\<close>

definition unreachable :: "nat Env" where
  "unreachable = scriptEnv (\<lambda>n. Inl (New ''connection refused'')) (Inr ''config'')
            (\<lambda>c. setsStatus (mkStatus None)) (Inr ''ingress'') (setsStatus (mkStatus None)) None"

text \<open>Three statuses: ready, not ready, and readiness unknown.\<close>

definition ready :: InferenceServiceStatus where
  "ready = mkStatus (Some [mkCondition ''Ready'' ''True''])"

definition notReady :: InferenceServiceStatus where
  "notReady = mkStatus (Some [mkCondition ''Ready'' ''False''])"

definition unknown :: InferenceServiceStatus where
  "unknown = mkStatus (Some [mkCondition ''Ready'' ''Unknown''])"

text \<open>The first fetch finds the object; the fetch of the status commit fails.\<close>

definition flaky :: "nat Env" where
  "flaky = scriptEnv (\<lambda>n. if n = 0 then Inr (iris None None unknown) else Inl (New ''timeout''))
             (Inr ''config'') (\<lambda>c. setsStatus ready) (Inr ''ingress'') (setsStatus ready) None"

text \<open>The store refuses the status update.\<close>

definition conflicting :: "nat Env" where
  "conflicting = scriptEnv (\<lambda>n. Inr (iris None None unknown)) (Inr ''config'')
     (\<lambda>c. setsStatus ready) (Inr ''ingress'') (setsStatus ready) (Some (New ''conflict''))"

text \<open>The object becomes ready: the store holds "unknown", the reconcilers set "True".\<close>

definition rollout :: "nat Env" where
  "rollout = scriptEnv (\<lambda>n. Inr (iris None None unknown)) (Inr ''config'')
     (\<lambda>c. setsStatus ready) (Inr ''ingress'') (setsStatus ready) None"

text \<open>The object stops being ready: the store holds "True", the reconcilers set "False".\<close>

definition outage :: "nat Env" where
  "outage = scriptEnv (\<lambda>n. Inr (iris None None ready)) (Inr ''config'')
     (\<lambda>c. setsStatus notReady) (Inr ''ingress'') (setsStatus notReady) None"


text \<open>An object that requests a transformer and an explainer, and becomes ready.\<close>

definition full :: "nat Env" where
  "full = scriptEnv (\<lambda>n. Inr (iris (Some ''scaler'') (Some ''alibi'') unknown)) (Inr ''config'')
     (\<lambda>c. setsStatus ready) (Inr ''ingress'') (setsStatus ready) None"

text \<open>
  An object that requests a transformer, and whose status is ready. The predictor fails in
  the first environment, the transformer in the second, both with the same error.
\<close>

definition predictorDown :: "nat Env" where
  "predictorDown = scriptEnv (\<lambda>n. Inr (iris (Some ''scaler'') None ready)) (Inr ''config'')
     (\<lambda>c. case c of NewPredictor cfg \<Rightarrow> failsWith (New ''no capacity'') | _ \<Rightarrow> setsStatus ready)
     (Inr ''ingress'') (setsStatus ready) None"

definition transformerDown :: "nat Env" where
  "transformerDown = scriptEnv (\<lambda>n. Inr (iris (Some ''scaler'') None ready)) (Inr ''config'')
     (\<lambda>c. case c of NewTransformer cfg \<Rightarrow> failsWith (New ''no capacity'') | _ \<Rightarrow> setsStatus ready)
     (Inr ''ingress'') (setsStatus ready) None"

text \<open>The components succeed and the ingress reconciler fails.\<close>

definition ingressDown :: "nat Env" where
  "ingressDown = scriptEnv (\<lambda>n. Inr (iris None None unknown)) (Inr ''config'')
     (\<lambda>c. setsStatus ready) (Inr ''ingress'') (failsWith (New ''no gateway'')) None"

text \<open>The component configuration does not load.\<close>

definition misconfigured :: "nat Env" where
  "misconfigured = scriptEnv (\<lambda>n. Inr (iris None None unknown)) (Inl (New ''no configmap''))
     (\<lambda>c. setsStatus ready) (Inr ''ingress'') (setsStatus ready) None"

section \<open>Properties\<close>

subsection \<open>Reading calls off a concatenation\<close>

lemma componentCalls_append: "componentCalls (xs @ ys) = componentCalls xs @ componentCalls ys"
  by (induction xs rule: componentCalls.induct) simp_all

lemma ingressCalls_append: "ingressCalls (xs @ ys) = ingressCalls xs @ ingressCalls ys"
  by (induction xs rule: ingressCalls.induct) simp_all

lemma storeWrites_append: "storeWrites (xs @ ys) = storeWrites xs @ storeWrites ys"
  by (induction xs rule: storeWrites.induct) simp_all

lemma storeGets_append: "storeGets (xs @ ys) = storeGets xs @ storeGets ys"
  by (induction xs rule: storeGets.induct) simp_all

lemma events_append: "events (xs @ ys) = events xs @ events ys"
  by (simp add: events_def)

lemma events_Cons: "events (a # as) = (if isEvent a then a # events as else events as)"
  by (simp add: events_def)

lemma events_Nil: "events [] = []"
  by (simp add: events_def)

lemmas calls_simps = componentCalls_append ingressCalls_append storeWrites_append
  storeGets_append events_append events_Cons events_Nil

subsection \<open>The component loop\<close>

text \<open>
  When the loop runs to its end, it has invoked every reconciler of the list, in the
  order of the list, and nothing else has happened.
\<close>

lemma reconcileComponents_ok:
  "reconcileComponents r cs isvc w = (None, isvc', calls, w') \<Longrightarrow>
     componentCalls calls = cs \<and> events calls = [] \<and> storeWrites calls = [] \<and>
     storeGets calls = [] \<and> ingressCalls calls = [] \<and> filter componentFailed calls = [] \<and>
     filter ingressFailed calls = []"
proof (induction cs arbitrary: isvc w calls)
  case Nil
  then show ?case by (simp add: calls_simps)
next
  case (Cons c cs)
  obtain res isvc1 w1 where step: "componentReconcile r c isvc w = (res, isvc1, w1)"
    by (cases "componentReconcile r c isvc w") auto
  with Cons.prems have res: "res = None" by (cases res) auto
  obtain calls1 where rest: "reconcileComponents r cs isvc1 w1 = (None, isvc', calls1, w')"
    and calls: "calls = ComponentReconcile c isvc None # calls1"
    using Cons.prems step res by (auto split: prod.splits)
  from Cons.IH [OF rest] calls show ?case by (simp add: calls_simps)
qed

text \<open>
  When the loop returns an error, one reconciler of the list has failed: the ones before
  it succeeded, the ones after it were not invoked, and the error is logged, notified
  once and wrapped.
\<close>

lemma reconcileComponents_failed:
  "reconcileComponents r cs isvc w = (Some err, isvc', calls, w') \<Longrightarrow>
     \<exists>done c rest isvc0 w0 e oks.
       cs = done @ c # rest \<and>
       componentReconcile r c isvc0 w0 = (Some e, isvc', w') \<and>
       err = Wrapf e ''fails to reconcile component'' \<and>
       calls = oks @
         [ComponentReconcile c isvc0 (Some e),
          LogError e ''Failed to reconcile''
            [(''reconciler'', LReconciler c), (''Name'', LString (Name isvc'))],
          Eventf isvc' EventTypeWarning ''InternalError'' (Error e) []] \<and>
       componentCalls oks = done \<and> events oks = [] \<and> storeWrites oks = [] \<and>
       storeGets oks = [] \<and> ingressCalls oks = [] \<and> filter componentFailed oks = [] \<and>
       filter ingressFailed oks = []"
proof (induction cs arbitrary: isvc w calls)
  case Nil
  then show ?case by simp
next
  case (Cons c cs)
  obtain res isvc1 w1 where step: "componentReconcile r c isvc w = (res, isvc1, w1)"
    by (cases "componentReconcile r c isvc w") auto
  show ?case
  proof (cases res)
    case None
    then obtain calls1 where rest: "reconcileComponents r cs isvc1 w1 = (Some err, isvc', calls1, w')"
      and calls: "calls = ComponentReconcile c isvc None # calls1"
      using Cons.prems step by (auto split: prod.splits)
    from Cons.IH [OF rest] obtain dn c' rst isvc0 w0 e oks where
      a: "cs = dn @ c' # rst" "componentReconcile r c' isvc0 w0 = (Some e, isvc', w')"
         "err = Wrapf e ''fails to reconcile component''"
         "calls1 = oks @
           [ComponentReconcile c' isvc0 (Some e),
            LogError e ''Failed to reconcile''
              [(''reconciler'', LReconciler c'), (''Name'', LString (Name isvc'))],
            Eventf isvc' EventTypeWarning ''InternalError'' (Error e) []]"
         "componentCalls oks = dn" "events oks = []" "storeWrites oks = []"
         "storeGets oks = []" "ingressCalls oks = []" "filter componentFailed oks = []"
         "filter ingressFailed oks = []"
      by blast
    show ?thesis
      apply (rule exI [of _ "c # dn"], rule exI [of _ c'], rule exI [of _ rst],
             rule exI [of _ isvc0], rule exI [of _ w0], rule exI [of _ e],
             rule exI [of _ "ComponentReconcile c isvc None # oks"])
      using a calls by (simp add: calls_simps)
  next
    case (Some e)
    with Cons.prems step have
      "err = Wrapf e ''fails to reconcile component''" "isvc1 = isvc'" "w1 = w'"
      "calls = [ComponentReconcile c isvc (Some e),
          LogError e ''Failed to reconcile''
            [(''reconciler'', LReconciler c), (''Name'', LString (Name isvc'))],
          Eventf isvc' EventTypeWarning ''InternalError'' (Error e) []]"
      by auto
    with step Some show ?thesis
      apply -
      apply (rule exI [of _ "[]"], rule exI [of _ c], rule exI [of _ cs],
             rule exI [of _ isvc], rule exI [of _ w], rule exI [of _ e],
             rule exI [of _ "[]"])
      by (simp add: calls_simps)
  qed
qed


subsection \<open>The ways through a pass\<close>

text \<open>
  The lines before the status commit end in one of five ways: the fetch failed, the
  component configuration did not load, a component failed, the ingress configuration did
  not load, or the ingress reconciler ran (and failed or not).
\<close>

lemma converge_cases:
  obtains
    (fetch_failed) err w1 where
      "clientGet r req w = (Inl err, w1)"
      "converge r req w =
         (Inl (Result_zero, if IsNotFound r err then None else Some err),
          [ClientGet req (Inl err)], w1)"
  | (config_failed) isvc w1 err w2 where
      "clientGet r req w = (Inr isvc, w1)"
      "NewInferenceServicesConfig r w1 = (Inl err, w2)"
      "converge r req w =
         (Inl (Result_zero, Some (Wrapf err ''fails to create InferenceServicesConfig'')),
          fetched req isvc @ [LoadInferenceServicesConfig (Inl err)], w2)"
  | (component_failed) isvc w1 cfg w2 err isvc1 calls w3 where
      "clientGet r req w = (Inr isvc, w1)"
      "NewInferenceServicesConfig r w1 = (Inr cfg, w2)"
      "reconcileComponents r (reconcilers cfg isvc) isvc w2 = (Some err, isvc1, calls, w3)"
      "converge r req w =
         (Inl (Result_zero, Some err),
          fetched req isvc @ [LoadInferenceServicesConfig (Inr cfg)] @ calls, w3)"
  | (ingress_config_failed) isvc w1 cfg w2 isvc1 calls w3 err w4 where
      "clientGet r req w = (Inr isvc, w1)"
      "NewInferenceServicesConfig r w1 = (Inr cfg, w2)"
      "reconcileComponents r (reconcilers cfg isvc) isvc w2 = (None, isvc1, calls, w3)"
      "NewIngressConfig r w3 = (Inl err, w4)"
      "converge r req w =
         (Inl (Result_zero, Some (Wrapf err ''fails to create IngressConfig'')),
          fetched req isvc @ [LoadInferenceServicesConfig (Inr cfg)] @ calls @
          [LoadIngressConfig (Inl err)], w4)"
  | (ingress_done) isvc w1 cfg w2 isvc1 calls w3 icfg w4 res isvc2 w5 where
      "clientGet r req w = (Inr isvc, w1)"
      "NewInferenceServicesConfig r w1 = (Inr cfg, w2)"
      "reconcileComponents r (reconcilers cfg isvc) isvc w2 = (None, isvc1, calls, w3)"
      "NewIngressConfig r w3 = (Inr icfg, w4)"
      "ingressReconcile r (NewIngressReconciler icfg) isvc1 w4 = (res, isvc2, w5)"
      "converge r req w =
         ((case res of
             Some err \<Rightarrow> Inl (Result_zero, Some (Wrapf err ''fails to reconcile ingress''))
           | None \<Rightarrow> Inr isvc2),
          fetched req isvc @ [LoadInferenceServicesConfig (Inr cfg)] @ calls @
          [LoadIngressConfig (Inr icfg),
           LogInfo ''Reconciling ingress for inference service'' [(''isvc'', LString (Name isvc1))],
           IngressReconcile (NewIngressReconciler icfg) isvc1 res], w5)"
proof -
  obtain g w1 where g: "clientGet r req w = (g, w1)" by (cases "clientGet r req w") auto
  show thesis
  proof (cases g)
    case (Inl err)
    with g show thesis by (intro fetch_failed [of err w1]) (simp_all add: converge_def)
  next
    case (Inr isvc)
    obtain c w2 where c: "NewInferenceServicesConfig r w1 = (c, w2)"
      by (cases "NewInferenceServicesConfig r w1") auto
    show thesis
    proof (cases c)
      case (Inl err)
      with g Inr c show thesis
        by (intro config_failed [of isvc w1 err w2]) (simp_all add: converge_def fetched_def)
    next
      case cfg: (Inr cfg)
      obtain l isvc1 calls w3 where
        l: "reconcileComponents r (reconcilers cfg isvc) isvc w2 = (l, isvc1, calls, w3)"
        by (cases "reconcileComponents r (reconcilers cfg isvc) isvc w2") auto
      show thesis
      proof (cases l)
        case (Some err)
        with g Inr c cfg l show thesis
          by (intro component_failed [of isvc w1 cfg w2 err isvc1 calls w3])
             (simp_all add: converge_def fetched_def)
      next
        case None
        obtain i w4 where i: "NewIngressConfig r w3 = (i, w4)"
          by (cases "NewIngressConfig r w3") auto
        show thesis
        proof (cases i)
          case (Inl err)
          with g Inr c cfg l None i show thesis
            by (intro ingress_config_failed [of isvc w1 cfg w2 isvc1 calls w3 err w4])
               (simp_all add: converge_def fetched_def)
        next
          case icfg: (Inr icfg)
          obtain res isvc2 w5 where
            n: "ingressReconcile r (NewIngressReconciler icfg) isvc1 w4 = (res, isvc2, w5)"
            by (cases "ingressReconcile r (NewIngressReconciler icfg) isvc1 w4") auto
          with g Inr c cfg l None i icfg show thesis
            by (intro ingress_done [of isvc w1 cfg w2 isvc1 calls w3 icfg w4 res isvc2 w5])
               (simp_all add: converge_def fetched_def split: option.splits)
        qed
      qed
    qed
  qed
qed


subsection \<open>The status commit, branch by branch\<close>

lemma updateStatus_refetch_failed:
  "clientGet r (keyOf d) w = (Inl err, w1) \<Longrightarrow>
     updateStatus r d w = (Some err, [ClientGet (keyOf d) (Inl err)], w1)"
  by (simp add: updateStatus_def keyOf_def)

lemma updateStatus_skipped:
  "clientGet r (keyOf d) w = (Inr existing, w1) \<Longrightarrow> DeepEqual (Status existing) (Status d) \<Longrightarrow>
     updateStatus r d w = (None, [ClientGet (keyOf d) (Inr existing)], w1)"
  by (simp add: updateStatus_def keyOf_def)

lemma updateStatus_write_failed:
  "clientGet r (keyOf d) w = (Inr existing, w1) \<Longrightarrow>
   \<not> DeepEqual (Status existing) (Status d) \<Longrightarrow>
   clientStatusUpdate r d w1 = (Some err, w2) \<Longrightarrow>
     updateStatus r d w =
       (Some (Wrapf err ''fails to update InferenceService status''),
        [ClientGet (keyOf d) (Inr existing),
         ClientStatusUpdate d (Some err),
         LogError err ''Failed to update InferenceService status''
           [(''InferenceService'', LString (Name d))],
         Eventf d EventTypeWarning ''UpdateFailed''
           ''Failed to update status for InferenceService %q: %v''
           [ArgString (Name d), ArgError err]],
        w2)"
  by (simp add: updateStatus_def keyOf_def)

lemma updateStatus_written:
  "clientGet r (keyOf d) w = (Inr existing, w1) \<Longrightarrow>
   \<not> DeepEqual (Status existing) (Status d) \<Longrightarrow>
   clientStatusUpdate r d w1 = (None, w2) \<Longrightarrow>
     updateStatus r d w =
       (None,
        [ClientGet (keyOf d) (Inr existing), ClientStatusUpdate d None] @
        (if inferenceServiceReadiness (Status existing) \<and> \<not> inferenceServiceReadiness (Status d)
         then [notReadyEvent r d]
         else if \<not> inferenceServiceReadiness (Status existing) \<and> inferenceServiceReadiness (Status d)
         then [readyEvent r d]
         else []),
        w2)"
  by (simp add: updateStatus_def keyOf_def notReadyEvent_def readyEvent_def Let_def)



lemma readyEvent_neq_notReadyEvent: "readyEvent r d \<noteq> notReadyEvent r d"
  by (simp add: readyEvent_def notReadyEvent_def EventTypeNormal_def EventTypeWarning_def)

lemma readyEvent_notin_head:
  "readyEvent r d \<noteq> ClientGet k g" "readyEvent r d \<noteq> ClientStatusUpdate d' e"
  "notReadyEvent r d \<noteq> ClientGet k g" "notReadyEvent r d \<noteq> ClientStatusUpdate d' e"
  "isEvent (readyEvent r d)" "isEvent (notReadyEvent r d)"
  by (simp_all add: readyEvent_def notReadyEvent_def)


subsection \<open>The lines before the status commit\<close>

lemma fetched_calls:
  "componentCalls (fetched req isvc) = []" "ingressCalls (fetched req isvc) = []"
  "storeWrites (fetched req isvc) = []" "storeGets (fetched req isvc) = [req]"
  "events (fetched req isvc) = []" "filter componentFailed (fetched req isvc) = []"
  "filter ingressFailed (fetched req isvc) = []"
  by (simp_all add: fetched_def calls_simps)

lemma converge_store:
  "storeWrites (fst (snd (converge r req w))) = [] \<and> storeGets (fst (snd (converge r req w))) = [req]"
proof (cases rule: converge_cases [of r req w])
  case (component_failed isvc w1 cfg w2 err isvc1 calls w3)
  from reconcileComponents_failed [OF component_failed(3)] component_failed(4)
  show ?thesis by (auto simp: calls_simps fetched_calls)
next
  case (ingress_config_failed isvc w1 cfg w2 isvc1 calls w3 err w4)
  from reconcileComponents_ok [OF ingress_config_failed(3)] ingress_config_failed(5)
  show ?thesis by (simp add: calls_simps fetched_calls)
next
  case (ingress_done isvc w1 cfg w2 isvc1 calls w3 icfg w4 res isvc2 w5)
  from reconcileComponents_ok [OF ingress_done(3)] ingress_done(6)
  show ?thesis by (simp add: calls_simps fetched_calls)
qed (simp_all add: calls_simps fetched_calls)

lemma converge_done:
  assumes "converge r req w = (Inr d, calls, w')"
  shows "events calls = [] \<and> filter componentFailed calls = [] \<and> filter ingressFailed calls = [] \<and>
         storeWrites calls = [] \<and> storeGets calls = [req]"
proof -
  have st: "storeWrites calls = [] \<and> storeGets calls = [req]"
    using converge_store [of r req w] assms by simp
  have "events calls = [] \<and> filter componentFailed calls = [] \<and> filter ingressFailed calls = []"
  proof (cases rule: converge_cases [of r req w])
    case (ingress_done isvc w1 cfg w2 isvc1 cs w3 icfg w4 res isvc2 w5)
    with assms have "res = None" by (cases res) auto
    with reconcileComponents_ok [OF ingress_done(3)] ingress_done(6) assms
    show ?thesis by (auto simp: calls_simps fetched_calls)
  qed (use assms in \<open>auto split: if_splits\<close>)
  with st show ?thesis by simp
qed

subsection \<open>The whole pass\<close>

lemma updateStatus_calls:
  "componentCalls (fst (snd (updateStatus r d w))) = [] \<and>
   ingressCalls (fst (snd (updateStatus r d w))) = [] \<and>
   filter componentFailed (fst (snd (updateStatus r d w))) = [] \<and>
   filter ingressFailed (fst (snd (updateStatus r d w))) = []"
  by (simp add: updateStatus_def Let_def split: prod.splits sum.splits option.splits)

lemma Reconcile_calls:
  "\<exists>rest. fst (snd (Reconcile r req w)) = fst (snd (converge r req w)) @ rest \<and>
     componentCalls rest = [] \<and> ingressCalls rest = [] \<and>
     filter componentFailed rest = [] \<and> filter ingressFailed rest = [] \<and>
     (\<forall>ret. fst (converge r req w) = Inl ret \<longrightarrow> rest = [] \<and> fst (Reconcile r req w) = ret)"
proof -
  obtain res calls w1 where c: "converge r req w = (res, calls, w1)"
    by (cases "converge r req w") auto
  show ?thesis
  proof (cases res)
    case (Inl ret)
    with c show ?thesis by (simp add: Reconcile_def)
  next
    case (Inr d)
    obtain e u w2 where u: "updateStatus r d w1 = (e, u, w2)"
      by (cases "updateStatus r d w1") auto
    with updateStatus_calls [of r d w1] c Inr show ?thesis
      by (cases e) (simp_all add: Reconcile_def calls_simps)
  qed
qed

subsection \<open>The component invocations of a pass\<close>

lemma reconcileComponents_replay:
  "reconcileComponents r cs isvc w = (res, isvc', calls, w') \<Longrightarrow>
     replay r isvc w (filter isComponentCall calls) = Some (isvc', w')"
proof (induction cs arbitrary: isvc w calls)
  case Nil
  then show ?case by simp
next
  case (Cons c cs)
  obtain res1 isvc1 w1 where step: "componentReconcile r c isvc w = (res1, isvc1, w1)"
    by (cases "componentReconcile r c isvc w") auto
  show ?case
  proof (cases res1)
    case None
    then obtain calls1 where rest: "reconcileComponents r cs isvc1 w1 = (res, isvc', calls1, w')"
      and calls: "calls = ComponentReconcile c isvc None # calls1"
      using Cons.prems step by (auto split: prod.splits)
    from Cons.IH [OF rest] calls step None show ?thesis by simp
  next
    case (Some e)
    with Cons.prems step show ?thesis by auto
  qed
qed

lemma ingress_entry_counted:
  "IngressReconcile i x res \<in> set xs \<Longrightarrow> ingressCalls xs \<noteq> []"
  by (induction xs rule: ingressCalls.induct) auto

lemma component_entries_counted:
  "componentCalls xs = [] \<Longrightarrow> filter isComponentCall xs = []"
  by (induction xs rule: componentCalls.induct) auto

lemma butlast_failed:
  "filter componentFailed xs = [] \<Longrightarrow> filter componentFailed (butlast (filter isComponentCall xs)) = []"
  by (auto simp: filter_empty_conv dest: in_set_butlastD)

lemma converge_components:
  assumes get: "clientGet r req w = (Inr isvc, w1)"
    and cfg: "NewInferenceServicesConfig r w1 = (Inr cfg, w2)"
  shows "\<exists>n obj' w'.
     0 < n \<and>
     componentCalls (fst (snd (converge r req w))) = take n (reconcilers cfg isvc) \<and>
     replay r isvc w2 (filter isComponentCall (fst (snd (converge r req w)))) = Some (obj', w') \<and>
     filter componentFailed (butlast (filter isComponentCall (fst (snd (converge r req w))))) = [] \<and>
     (filter componentFailed (fst (snd (converge r req w))) = [] \<longrightarrow> n = length (reconcilers cfg isvc)) \<and>
     (filter componentFailed (fst (snd (converge r req w))) \<noteq> [] \<longrightarrow>
        snd (snd (converge r req w)) = w' \<and> (\<exists>ret. fst (converge r req w) = Inl ret)) \<and>
     (\<forall>i x res. IngressReconcile i x res \<in> set (fst (snd (converge r req w))) \<longrightarrow> x = obj')"
proof (cases rule: converge_cases [of r req w])
  case (fetch_failed err w1)
  with get show ?thesis by simp
next
  case (config_failed isvc w1 err w2)
  with get cfg show ?thesis by simp
next
  case (component_failed isvc' w1' cfg' w2' err isvc1 calls w3)
  with get cfg have eq: "isvc' = isvc" "cfg' = cfg" "w2' = w2" by simp_all
  note loop = component_failed(3) [unfolded eq]
  from reconcileComponents_failed [OF loop] obtain dn c rst isvc0 e oks where
    f: "reconcilers cfg isvc = dn @ c # rst"
       "calls = oks @
         [ComponentReconcile c isvc0 (Some e),
          LogError e ''Failed to reconcile''
            [(''reconciler'', LReconciler c), (''Name'', LString (Name isvc1))],
          Eventf isvc1 EventTypeWarning ''InternalError'' (Error e) []]"
       "componentCalls oks = dn" "filter componentFailed oks = []" "ingressCalls oks = []"
    by blast
  have c: "fst (snd (converge r req w)) =
      fetched req isvc @ [LoadInferenceServicesConfig (Inr cfg)] @ calls"
    "snd (snd (converge r req w)) = w3" "fst (converge r req w) = Inl (Result_zero, Some err)"
    using component_failed(4) eq by simp_all
  have e: "filter isComponentCall (fst (snd (converge r req w))) = filter isComponentCall calls"
    unfolding c by (simp add: fetched_def)
  have 1: "componentCalls (fst (snd (converge r req w))) = take (Suc (length dn)) (reconcilers cfg isvc)"
    unfolding c using f by (simp add: calls_simps fetched_calls)
  have 2: "replay r isvc w2 (filter isComponentCall (fst (snd (converge r req w)))) = Some (isvc1, w3)"
    unfolding e by (rule reconcileComponents_replay [OF loop])
  have 3: "filter componentFailed (butlast (filter isComponentCall (fst (snd (converge r req w))))) = []"
    unfolding e using f(2,4) by (simp add: butlast_append filter_empty_conv)
  have 4: "filter componentFailed (fst (snd (converge r req w))) \<noteq> []"
    unfolding c using f(2) by simp
  have 5: "\<forall>i x res. IngressReconcile i x res \<in> set (fst (snd (converge r req w))) \<longrightarrow> x = isvc1"
  proof -
    have "ingressCalls (fst (snd (converge r req w))) = []"
      unfolding c using f by (simp add: calls_simps fetched_calls)
    then show ?thesis using ingress_entry_counted by blast
  qed
  have 0: "0 < Suc (length dn)" by simp
  have 6: "snd (snd (converge r req w)) = w3 \<and> (\<exists>ret. fst (converge r req w) = Inl ret)"
    using c by simp
  show ?thesis using 0 1 2 3 4 5 6 by blast
next
  case (ingress_config_failed isvc' w1' cfg' w2' isvc1 calls w3 err w4)
  with get cfg have eq: "isvc' = isvc" "cfg' = cfg" "w2' = w2" by simp_all
  note loop = ingress_config_failed(3) [unfolded eq]
  note ok = reconcileComponents_ok [OF loop]
  have c: "fst (snd (converge r req w)) =
      fetched req isvc @ [LoadInferenceServicesConfig (Inr cfg)] @ calls @ [LoadIngressConfig (Inl err)]"
    using ingress_config_failed(5) eq by simp
  have e: "filter isComponentCall (fst (snd (converge r req w))) = filter isComponentCall calls"
    unfolding c by (simp add: fetched_def)
  have 1: "componentCalls (fst (snd (converge r req w))) =
      take (length (reconcilers cfg isvc)) (reconcilers cfg isvc)"
    unfolding c using ok by (simp add: calls_simps fetched_calls)
  have 2: "replay r isvc w2 (filter isComponentCall (fst (snd (converge r req w)))) = Some (isvc1, w3)"
    unfolding e by (rule reconcileComponents_replay [OF loop])
  have 4: "filter componentFailed (fst (snd (converge r req w))) = []"
    unfolding c using ok by (simp add: fetched_calls)
  note 3 = butlast_failed [OF 4]
  have 5: "\<forall>i x res. IngressReconcile i x res \<in> set (fst (snd (converge r req w))) \<longrightarrow> x = isvc1"
  proof -
    have "ingressCalls (fst (snd (converge r req w))) = []"
      unfolding c using ok by (simp add: calls_simps fetched_calls)
    then show ?thesis using ingress_entry_counted by blast
  qed
  have 0: "0 < length (reconcilers cfg isvc)" by (simp add: reconcilers_def)
  show ?thesis using 0 1 2 3 4 5 by blast
next
  case (ingress_done isvc' w1' cfg' w2' isvc1 calls w3 icfg w4 res isvc2 w5)
  with get cfg have eq: "isvc' = isvc" "cfg' = cfg" "w2' = w2" by simp_all
  note loop = ingress_done(3) [unfolded eq]
  note ok = reconcileComponents_ok [OF loop]
  have c: "fst (snd (converge r req w)) =
      fetched req isvc @ [LoadInferenceServicesConfig (Inr cfg)] @ calls @
      [LoadIngressConfig (Inr icfg),
       LogInfo ''Reconciling ingress for inference service'' [(''isvc'', LString (Name isvc1))],
       IngressReconcile (NewIngressReconciler icfg) isvc1 res]"
    using ingress_done(6) eq by simp
  have e: "filter isComponentCall (fst (snd (converge r req w))) = filter isComponentCall calls"
    unfolding c by (simp add: fetched_def)
  have 1: "componentCalls (fst (snd (converge r req w))) =
      take (length (reconcilers cfg isvc)) (reconcilers cfg isvc)"
    unfolding c using ok by (simp add: calls_simps fetched_calls)
  have 2: "replay r isvc w2 (filter isComponentCall (fst (snd (converge r req w)))) = Some (isvc1, w3)"
    unfolding e by (rule reconcileComponents_replay [OF loop])
  have 4: "filter componentFailed (fst (snd (converge r req w))) = []"
    unfolding c using ok by (simp add: fetched_calls)
  note 3 = butlast_failed [OF 4]
  have 5: "\<forall>i x res. IngressReconcile i x res \<in> set (fst (snd (converge r req w))) \<longrightarrow> x = isvc1"
  proof (intro allI impI)
    fix i x res'
    assume "IngressReconcile i x res' \<in> set (fst (snd (converge r req w)))"
    then have "IngressReconcile i x res' \<in> set calls \<or> x = isvc1"
      unfolding c by (auto simp: fetched_def)
    with ok ingress_entry_counted show "x = isvc1" by blast
  qed
  have 0: "0 < length (reconcilers cfg isvc)" by (simp add: reconcilers_def)
  show ?thesis using 0 1 2 3 4 5 by blast
qed

lemma first_component_entry:
  "componentCalls xs \<noteq> [] \<Longrightarrow>
     filter isComponentCall xs \<noteq> [] \<and>
     (\<exists>obj res. hd (filter isComponentCall xs) = ComponentReconcile (hd (componentCalls xs)) obj res)"
  by (induction xs rule: componentCalls.induct) auto

lemma length_component_entries:
  "length (filter isComponentCall xs) = length (componentCalls xs)"
  by (induction xs rule: componentCalls.induct) auto

lemma replay_first:
  "replay r isvc w es = Some p \<Longrightarrow> es \<noteq> [] \<Longrightarrow> hd es = ComponentReconcile c obj res \<Longrightarrow>
     obj = isvc \<and> res = fst (componentReconcile r c isvc w)"
  by (cases es) (auto split: prod.splits if_splits)

lemma Reconcile_of_converge_Inl:
  "fst (converge r req w) = Inl ret \<Longrightarrow> Reconcile r req w = (ret, snd (converge r req w))"
  by (cases "converge r req w") (simp add: Reconcile_def)

subsection \<open>Concrete passes\<close>

lemmas script_simps = scriptEnv_def setsStatus_def failsWith_def mkStatus_def mkCondition_def
  iris_def irisKey_def keyOf_def

lemma flaky_converge:
  "converge flaky irisKey 0 =
     (Inr (iris None None ready),
      fetched irisKey (iris None None unknown) @
      [LoadInferenceServicesConfig (Inr ''config''),
       ComponentReconcile (NewPredictor ''config'') (iris None None unknown) None,
       LoadIngressConfig (Inr ''ingress''),
       LogInfo ''Reconciling ingress for inference service'' [(''isvc'', LString ''iris'')],
       IngressReconcile (NewIngressReconciler ''ingress'') (iris None None ready) None], 1)"
  by (simp add: converge_def flaky_def reconcilers_def fetched_def ready_def unknown_def script_simps)

lemma readiness_examples:
  "inferenceServiceReadiness ready" "\<not> inferenceServiceReadiness notReady"
  "\<not> inferenceServiceReadiness unknown"
  by (simp_all add: inferenceServiceReadiness_def GetCondition_def ready_def notReady_def
        unknown_def mkStatus_def mkCondition_def ConditionReady_def ConditionTrue_def)

lemma DeepEqual_examples:
  "\<not> DeepEqual unknown ready" "\<not> DeepEqual ready notReady" "DeepEqual ready ready"
  by (simp_all add: DeepEqual_def sliceOf_def ready_def notReady_def unknown_def
        mkStatus_def mkCondition_def)

lemmas pass_simps = Reconcile_def converge_def updateStatus_def reconcilers_def
  DeepEqual_def sliceOf_def inferenceServiceReadiness_def GetCondition_def
  ConditionReady_def ConditionTrue_def ready_def notReady_def unknown_def script_simps

section \<open>The claims\<close>

text \<open>
  Claim C10. On every return path (object not found, fetch error, configuration error,
  component failure, ingress failure, status-commit failure, success) \<^verbatim>\<open>Reconcile\<close>
  returns the zero \<^verbatim>\<open>Result\<close>: it never asks for a requeue, neither at once nor after
  a delay, whatever the collaborators do.
\<close>

theorem Reconcile_never_requeues:
  "fst (fst (Reconcile r req w)) = Result_zero \<and>
   \<not> Requeue (fst (fst (Reconcile r req w))) \<and>
   RequeueAfter (fst (fst (Reconcile r req w))) = 0"
proof -
  have "fst (fst (Reconcile r req w)) = Result_zero"
    by (cases rule: converge_cases [of r req w])
       (simp_all add: Reconcile_def split: prod.splits option.splits)
  then show ?thesis by (simp add: Result_zero_def)
qed

text \<open>
  Claim C5. The readiness evaluator returns true exactly when the condition set is
  non-empty, holds a condition named "Ready" (the one \<^verbatim>\<open>GetCondition\<close> returns), and
  that condition's value is "True". It returns false for a missing condition set, for a
  set without a Ready condition, and for a Ready condition that is "False" or
  "Unknown". When no two conditions share a name, "the Ready condition" is any condition
  of the set named Ready.
\<close>

theorem inferenceServiceReadiness_iff:
  "(inferenceServiceReadiness st \<longleftrightarrow>
      (\<exists>cs c. Conditions st = Some cs \<and> cs \<noteq> [] \<and>
         find (\<lambda>c. Type c = ConditionReady) cs = Some c \<and> ConditionStatus c = ConditionTrue)) \<and>
   (Conditions st = None \<longrightarrow> \<not> inferenceServiceReadiness st) \<and>
   (\<forall>cs. Conditions st = Some cs \<and> (\<forall>c \<in> set cs. Type c \<noteq> ConditionReady) \<longrightarrow>
      \<not> inferenceServiceReadiness st) \<and>
   (\<forall>cs c. Conditions st = Some cs \<and> find (\<lambda>c. Type c = ConditionReady) cs = Some c \<and>
      ConditionStatus c \<in> {ConditionFalse, ConditionUnknown} \<longrightarrow> \<not> inferenceServiceReadiness st) \<and>
   (\<forall>cs. Conditions st = Some cs \<and> distinct (map Type cs) \<longrightarrow>
      (inferenceServiceReadiness st \<longleftrightarrow>
         (\<exists>c \<in> set cs. Type c = ConditionReady \<and> ConditionStatus c = ConditionTrue)))"
proof -
  have iff: "inferenceServiceReadiness st \<longleftrightarrow>
      (\<exists>cs c. Conditions st = Some cs \<and> cs \<noteq> [] \<and>
         find (\<lambda>c. Type c = ConditionReady) cs = Some c \<and> ConditionStatus c = ConditionTrue)"
    unfolding inferenceServiceReadiness_def GetCondition_def
    by (auto split: option.splits)
  have missing: "\<not> inferenceServiceReadiness st"
    if "Conditions st = Some cs" "\<forall>c \<in> set cs. Type c \<noteq> ConditionReady" for cs
  proof -
    from that(2) have "find (\<lambda>c. Type c = ConditionReady) cs = None"
      by (simp add: find_None_iff)
    with that(1) show ?thesis by (simp add: iff)
  qed
  have other: "\<not> inferenceServiceReadiness st"
    if "Conditions st = Some cs" "find (\<lambda>c. Type c = ConditionReady) cs = Some c"
       "ConditionStatus c \<in> {ConditionFalse, ConditionUnknown}" for cs c
    using that by (auto simp: iff ConditionFalse_def ConditionUnknown_def ConditionTrue_def)
  have uniq: "inferenceServiceReadiness st \<longleftrightarrow>
         (\<exists>c \<in> set cs. Type c = ConditionReady \<and> ConditionStatus c = ConditionTrue)"
    if cs: "Conditions st = Some cs" and d: "distinct (map Type cs)" for cs
  proof
    assume "inferenceServiceReadiness st"
    with cs obtain c where "find (\<lambda>c. Type c = ConditionReady) cs = Some c"
      "ConditionStatus c = ConditionTrue" by (auto simp: iff)
    then show "\<exists>c \<in> set cs. Type c = ConditionReady \<and> ConditionStatus c = ConditionTrue"
      by (auto simp: find_Some_iff)
  next
    assume "\<exists>c \<in> set cs. Type c = ConditionReady \<and> ConditionStatus c = ConditionTrue"
    then obtain c where c: "c \<in> set cs" "Type c = ConditionReady" "ConditionStatus c = ConditionTrue"
      by blast
    then obtain c' where f: "find (\<lambda>c. Type c = ConditionReady) cs = Some c'"
      by (cases "find (\<lambda>c. Type c = ConditionReady) cs") (auto simp: find_None_iff)
    then have "c' \<in> set cs" "Type c' = ConditionReady"
      by (auto simp: find_Some_iff)
    with c d have "c' = c"
      by (metis distinct_map inj_onD)
    with f c cs show "inferenceServiceReadiness st"
      by (cases cs) (auto simp: iff)
  qed
  show ?thesis
    using iff missing other uniq by (simp add: iff)
qed

theorem inferenceServiceReadiness_iff_witness:
  "inferenceServiceReadiness (mkStatus (Some [mkCondition ''Ready'' ''True''])) \<and>
   \<not> inferenceServiceReadiness (mkStatus None) \<and>
   \<not> inferenceServiceReadiness (mkStatus (Some [])) \<and>
   \<not> inferenceServiceReadiness (mkStatus (Some [mkCondition ''PredictorReady'' ''True''])) \<and>
   \<not> inferenceServiceReadiness (mkStatus (Some [mkCondition ''Ready'' ''False''])) \<and>
   \<not> inferenceServiceReadiness (mkStatus (Some [mkCondition ''Ready'' ''Unknown'']))"
  using inferenceServiceReadiness_iff [of "mkStatus (Some [mkCondition ''Ready'' ''True''])"]
    inferenceServiceReadiness_iff [of "mkStatus None"]
    inferenceServiceReadiness_iff [of "mkStatus (Some [])"]
    inferenceServiceReadiness_iff [of "mkStatus (Some [mkCondition ''PredictorReady'' ''True''])"]
    inferenceServiceReadiness_iff [of "mkStatus (Some [mkCondition ''Ready'' ''False''])"]
    inferenceServiceReadiness_iff [of "mkStatus (Some [mkCondition ''Ready'' ''Unknown''])"]
  by (simp add: mkStatus_def mkCondition_def ConditionReady_def ConditionTrue_def
        ConditionFalse_def ConditionUnknown_def)

text \<open>
  Claim C7. When the first fetch fails with an error that \<^verbatim>\<open>apierr.IsNotFound\<close> accepts,
  \<^verbatim>\<open>Reconcile\<close> returns the zero result and no error, calls no other collaborator and
  emits no notification. When it fails with any other error, \<^verbatim>\<open>Reconcile\<close> returns that
  very error, not wrapped.
\<close>

theorem Reconcile_fetch_failed:
  assumes "clientGet r req w = (Inl err, w1)"
  shows "(IsNotFound r err \<longrightarrow>
            Reconcile r req w = ((Result_zero, None), [ClientGet req (Inl err)], w1) \<and>
            events (fst (snd (Reconcile r req w))) = []) \<and>
         (\<not> IsNotFound r err \<longrightarrow>
            Reconcile r req w = ((Result_zero, Some err), [ClientGet req (Inl err)], w1))"
  using assms by (simp add: Reconcile_def converge_def calls_simps)

theorem Reconcile_fetch_failed_witness:
  "clientGet gone irisKey 0 = (Inl (New ''not found''), 1) \<and>
   IsNotFound gone (New ''not found'') \<and>
   Reconcile gone irisKey 0 =
     ((Result_zero, None), [ClientGet irisKey (Inl (New ''not found''))], 1) \<and>
   events (fst (snd (Reconcile gone irisKey 0))) = [] \<and>
   clientGet unreachable irisKey 0 = (Inl (New ''connection refused''), 1) \<and>
   \<not> IsNotFound unreachable (New ''connection refused'') \<and>
   Reconcile unreachable irisKey 0 =
     ((Result_zero, Some (New ''connection refused'')),
      [ClientGet irisKey (Inl (New ''connection refused''))], 1)"
proof -
  have g: "clientGet gone irisKey 0 = (Inl (New ''not found''), 1)"
    and gn: "IsNotFound gone (New ''not found'')"
    by (simp_all add: gone_def scriptEnv_def)
  have u: "clientGet unreachable irisKey 0 = (Inl (New ''connection refused''), 1)"
    and un: "\<not> IsNotFound unreachable (New ''connection refused'')"
    by (simp_all add: unreachable_def scriptEnv_def)
  show ?thesis
    using g gn u un Reconcile_fetch_failed [OF g] Reconcile_fetch_failed [OF u]
    by (simp add: calls_simps)
qed

text \<open>
  Claim C8. The status commit starts by fetching the object again, under the key made of
  its namespace and name, before anything else. When this fetch fails, the commit returns
  that error, makes no store write, and does the same whatever the in-memory status is:
  the in-memory copy is no fallback. \<^verbatim>\<open>Reconcile\<close> then returns this error as the
  failure of the pass, having written nothing.
\<close>

theorem updateStatus_refetch_error:
  "fst (snd (updateStatus r d w)) \<noteq> [] \<and>
   hd (fst (snd (updateStatus r d w))) = ClientGet (keyOf d) (fst (clientGet r (keyOf d) w)) \<and>
   (clientGet r (keyOf d) w = (Inl err, w1) \<longrightarrow>
      updateStatus r d w = (Some err, [ClientGet (keyOf d) (Inl err)], w1) \<and>
      storeWrites (fst (snd (updateStatus r d w))) = [] \<and>
      (\<forall>st. updateStatus r (d\<lparr>Status := st\<rparr>) w = updateStatus r d w)) \<and>
   (converge r req w0 = (Inr d, calls, w) \<and> clientGet r (keyOf d) w = (Inl err, w1) \<longrightarrow>
      fst (Reconcile r req w0) = (Result_zero, Some err) \<and>
      storeWrites (fst (snd (Reconcile r req w0))) = [] \<and>
      storeGets (fst (snd (Reconcile r req w0))) = [req, keyOf d])"
proof -
  obtain g w' where g: "clientGet r (keyOf d) w = (g, w')"
    by (cases "clientGet r (keyOf d) w") auto
  have first: "fst (snd (updateStatus r d w)) \<noteq> [] \<and>
    hd (fst (snd (updateStatus r d w))) = ClientGet (keyOf d) (fst (clientGet r (keyOf d) w))"
    using g by (cases g)
      (auto simp: updateStatus_def keyOf_def Let_def split: prod.splits option.splits)
  have failed: "updateStatus r d w = (Some err, [ClientGet (keyOf d) (Inl err)], w1) \<and>
      storeWrites (fst (snd (updateStatus r d w))) = [] \<and>
      (\<forall>st. updateStatus r (d\<lparr>Status := st\<rparr>) w = updateStatus r d w)"
    if "clientGet r (keyOf d) w = (Inl err, w1)"
    using that by (simp add: updateStatus_def keyOf_def)
  have pass: "fst (Reconcile r req w0) = (Result_zero, Some err) \<and>
      storeWrites (fst (snd (Reconcile r req w0))) = [] \<and>
      storeGets (fst (snd (Reconcile r req w0))) = [req, keyOf d]"
    if "converge r req w0 = (Inr d, calls, w)" "clientGet r (keyOf d) w = (Inl err, w1)"
    using that updateStatus_refetch_failed [OF that(2)] converge_done [OF that(1)]
    by (simp add: Reconcile_def calls_simps)
  show ?thesis using first failed pass by blast
qed

theorem updateStatus_refetch_error_witness:
  "clientGet flaky (keyOf (iris None None ready)) 1 = (Inl (New ''timeout''), 2) \<and>
   updateStatus flaky (iris None None ready) 1 =
     (Some (New ''timeout''), [ClientGet irisKey (Inl (New ''timeout''))], 2) \<and>
   fst (Reconcile flaky irisKey 0) = (Result_zero, Some (New ''timeout'')) \<and>
   storeWrites (fst (snd (Reconcile flaky irisKey 0))) = [] \<and>
   storeGets (fst (snd (Reconcile flaky irisKey 0))) = [irisKey, irisKey]"
proof -
  have g: "clientGet flaky (keyOf (iris None None ready)) 1 = (Inl (New ''timeout''), 2)"
    by (simp add: flaky_def script_simps)
  have k: "keyOf (iris None None ready) = irisKey"
    by (simp add: script_simps)
  show ?thesis
    using g k flaky_converge
      updateStatus_refetch_error [where r = flaky and d = "iris None None ready" and w = 1
        and err = "New ''timeout''" and ?w1.0 = 2 and req = irisKey and ?w0.0 = 0]
    by simp
qed

text \<open>
  Claim C9. When the statuses differ and the store refuses the status update, the commit
  emits one warning notification, which cites the object's name and the cause, returns the
  cause wrapped, and emits no readiness notification. \<^verbatim>\<open>Reconcile\<close> returns this wrapped
  error as the failure of the pass.
\<close>

theorem updateStatus_write_error:
  assumes "clientGet r (keyOf d) w = (Inr existing, w1)"
    and "\<not> DeepEqual (Status existing) (Status d)"
    and "clientStatusUpdate r d w1 = (Some err, w2)"
  shows "fst (updateStatus r d w) = Some (Wrapf err ''fails to update InferenceService status'') \<and>
     events (fst (snd (updateStatus r d w))) =
       [Eventf d EventTypeWarning ''UpdateFailed''
          ''Failed to update status for InferenceService %q: %v''
          [ArgString (Name d), ArgError err]] \<and>
     storeWrites (fst (snd (updateStatus r d w))) = [d] \<and>
     readyEvent r d \<notin> set (fst (snd (updateStatus r d w))) \<and>
     notReadyEvent r d \<notin> set (fst (snd (updateStatus r d w))) \<and>
     (\<forall>req w0 calls. converge r req w0 = (Inr d, calls, w) \<longrightarrow>
        fst (Reconcile r req w0) =
          (Result_zero, Some (Wrapf err ''fails to update InferenceService status'')) \<and>
        events (fst (snd (Reconcile r req w0))) =
          [Eventf d EventTypeWarning ''UpdateFailed''
             ''Failed to update status for InferenceService %q: %v''
             [ArgString (Name d), ArgError err],
           Eventf d EventTypeWarning ''InternalError''
             (Error (Wrapf err ''fails to update InferenceService status'')) []])"
proof -
  note u = updateStatus_write_failed [OF assms]
  have "fst (Reconcile r req w0) =
          (Result_zero, Some (Wrapf err ''fails to update InferenceService status'')) \<and>
        events (fst (snd (Reconcile r req w0))) =
          [Eventf d EventTypeWarning ''UpdateFailed''
             ''Failed to update status for InferenceService %q: %v''
             [ArgString (Name d), ArgError err],
           Eventf d EventTypeWarning ''InternalError''
             (Error (Wrapf err ''fails to update InferenceService status'')) []]"
    if "converge r req w0 = (Inr d, calls, w)" for req w0 calls
    using that u converge_done [OF that] by (simp add: Reconcile_def calls_simps)
  then show ?thesis
    using u by (simp add: calls_simps readyEvent_def notReadyEvent_def)
qed

theorem updateStatus_write_error_witness:
  "clientGet conflicting (keyOf (iris None None ready)) 1 = (Inr (iris None None unknown), 2) \<and>
   \<not> DeepEqual (Status (iris None None unknown)) (Status (iris None None ready)) \<and>
   clientStatusUpdate conflicting (iris None None ready) 2 = (Some (New ''conflict''), 2) \<and>
   fst (updateStatus conflicting (iris None None ready) 1) =
     Some (Wrapf (New ''conflict'') ''fails to update InferenceService status'') \<and>
   events (fst (snd (updateStatus conflicting (iris None None ready) 1))) =
     [Eventf (iris None None ready) ''Warning'' ''UpdateFailed''
        ''Failed to update status for InferenceService %q: %v''
        [ArgString ''iris'', ArgError (New ''conflict'')]] \<and>
   storeWrites (fst (snd (updateStatus conflicting (iris None None ready) 1))) =
     [iris None None ready]"
proof -
  have g: "clientGet conflicting (keyOf (iris None None ready)) 1 = (Inr (iris None None unknown), 2)"
    by (simp add: conflicting_def script_simps)
  have n: "\<not> DeepEqual (Status (iris None None unknown)) (Status (iris None None ready))"
    by (simp add: DeepEqual_def sliceOf_def ready_def unknown_def script_simps)
  have u: "clientStatusUpdate conflicting (iris None None ready) 2 = (Some (New ''conflict''), 2)"
    by (simp add: conflicting_def script_simps)
  have nm: "Name (iris None None ready) = ''iris''"
    by (simp add: script_simps)
  show ?thesis
    using g n u nm updateStatus_write_error [OF g n u] by (simp add: EventTypeWarning_def)
qed

text \<open>
  Claim C4. Let the fetch of the status commit return the existing object, and call the
  write successful when the statuses differ and the store accepts the update. The warning
  that the service is no longer ready is emitted exactly when the write is successful, the
  existing status is ready and the desired one is not; the normal event that it is ready
  exactly when the write is successful, the existing status is not ready and the desired one
  is. After a successful write these are the only notifications, at most one of them; and
  a skipped write emits nothing. (A failed write and a failed fetch emit no readiness
  notification either: claims C9 and C8.)
\<close>

theorem updateStatus_readiness_events:
  assumes "clientGet r (keyOf d) w = (Inr existing, w1)"
  shows
    "(notReadyEvent r d \<in> set (fst (snd (updateStatus r d w))) \<longleftrightarrow>
        \<not> DeepEqual (Status existing) (Status d) \<and> fst (clientStatusUpdate r d w1) = None \<and>
        inferenceServiceReadiness (Status existing) \<and> \<not> inferenceServiceReadiness (Status d)) \<and>
     (readyEvent r d \<in> set (fst (snd (updateStatus r d w))) \<longleftrightarrow>
        \<not> DeepEqual (Status existing) (Status d) \<and> fst (clientStatusUpdate r d w1) = None \<and>
        \<not> inferenceServiceReadiness (Status existing) \<and> inferenceServiceReadiness (Status d)) \<and>
     (\<not> DeepEqual (Status existing) (Status d) \<and> fst (clientStatusUpdate r d w1) = None \<longrightarrow>
        events (fst (snd (updateStatus r d w))) =
          (if inferenceServiceReadiness (Status existing) \<and> \<not> inferenceServiceReadiness (Status d)
           then [notReadyEvent r d]
           else if \<not> inferenceServiceReadiness (Status existing) \<and> inferenceServiceReadiness (Status d)
           then [readyEvent r d]
           else [])) \<and>
     (DeepEqual (Status existing) (Status d) \<longrightarrow> events (fst (snd (updateStatus r d w))) = [])"
proof (cases "DeepEqual (Status existing) (Status d)")
  case True
  from updateStatus_skipped [OF assms True] show ?thesis
    using True by (simp add: calls_simps readyEvent_notin_head)
next
  case False
  obtain res w2 where u: "clientStatusUpdate r d w1 = (res, w2)"
    by (cases "clientStatusUpdate r d w1") auto
  show ?thesis
  proof (cases res)
    case None
    from updateStatus_written [OF assms False u [unfolded None]] show ?thesis
      using False u None
      by (auto simp: calls_simps readyEvent_notin_head readyEvent_neq_notReadyEvent
            readyEvent_neq_notReadyEvent [symmetric])
  next
    case (Some err)
    from updateStatus_write_failed [OF assms False u [unfolded Some]] show ?thesis
      using False u Some by (simp add: calls_simps readyEvent_def notReadyEvent_def)
  qed
qed

theorem updateStatus_readiness_events_witness:
  "clientGet rollout (keyOf (iris None None ready)) 1 = (Inr (iris None None unknown), 2) \<and>
   events (fst (snd (updateStatus rollout (iris None None ready) 1))) =
     [readyEvent rollout (iris None None ready)] \<and>
   notReadyEvent rollout (iris None None ready) \<notin>
     set (fst (snd (updateStatus rollout (iris None None ready) 1))) \<and>
   clientGet outage (keyOf (iris None None notReady)) 1 = (Inr (iris None None ready), 2) \<and>
   events (fst (snd (updateStatus outage (iris None None notReady) 1))) =
     [notReadyEvent outage (iris None None notReady)] \<and>
   clientGet outage (keyOf (iris None None ready)) 1 = (Inr (iris None None ready), 2) \<and>
   events (fst (snd (updateStatus outage (iris None None ready) 1))) = []"
proof -
  have g1: "clientGet rollout (keyOf (iris None None ready)) 1 = (Inr (iris None None unknown), 2)"
    by (simp add: rollout_def script_simps)
  have u1: "fst (clientStatusUpdate rollout (iris None None ready) 2) = None"
    by (simp add: rollout_def script_simps)
  have g2: "clientGet outage (keyOf (iris None None notReady)) 1 = (Inr (iris None None ready), 2)"
    by (simp add: outage_def script_simps)
  have u2: "fst (clientStatusUpdate outage (iris None None notReady) 2) = None"
    by (simp add: outage_def script_simps)
  have g3: "clientGet outage (keyOf (iris None None ready)) 1 = (Inr (iris None None ready), 2)"
    by (simp add: outage_def script_simps)
  have st: "Status (iris None None s) = s" for s
    by (simp add: iris_def)
  show ?thesis
    using g1 g2 g3 u1 u2 updateStatus_readiness_events [OF g1] updateStatus_readiness_events [OF g2]
      updateStatus_readiness_events [OF g3]
    by (simp add: st readiness_examples DeepEqual_examples)
qed



text \<open>
  Claim C1, as the code has it. For every fetched object the list of component reconcilers
  has the predictor first, holds the transformer exactly when the spec requests one and
  the explainer exactly when the spec requests one, in this order and each once. When the
  component configuration has loaded, \<^verbatim>\<open>Reconcile\<close> invokes the reconcilers of the list in
  the order of the list, up to the first one that fails: the component entries of the pass
  replay against the collaborators, the first being the predictor's reconciler run on the
  fetched object in the world that loading the configuration left, each later one run on
  the object and in the world that the one before it left; every one but the last
  succeeded; a failure ends the pass in the world the failing reconciler left; and the
  ingress reconciler, when invoked, gets the object the last component left. The whole list
  is invoked when none fails, and the predictor alone when neither optional component is
  requested. When the configuration does not load, no component reconciler is invoked.
\<close>

theorem Reconcile_component_order:
  assumes "clientGet r req w = (Inr isvc, w1)"
  shows
    "(\<forall>cfg. hd (reconcilers cfg isvc) = NewPredictor cfg \<and>
        (NewTransformer cfg \<in> set (reconcilers cfg isvc) \<longleftrightarrow> Transformer (Spec isvc) \<noteq> None) \<and>
        (NewExplainer cfg \<in> set (reconcilers cfg isvc) \<longleftrightarrow> Explainer (Spec isvc) \<noteq> None) \<and>
        reconcilers cfg isvc =
          filter (\<lambda>c. c \<in> set (reconcilers cfg isvc))
            [NewPredictor cfg, NewTransformer cfg, NewExplainer cfg]) \<and>
     (\<forall>cfg w2. NewInferenceServicesConfig r w1 = (Inr cfg, w2) \<longrightarrow>
        (\<exists>n obj' w'.
           0 < n \<and>
           componentCalls (fst (snd (Reconcile r req w))) = take n (reconcilers cfg isvc) \<and>
           replay r isvc w2 (filter isComponentCall (fst (snd (Reconcile r req w)))) = Some (obj', w') \<and>
           filter componentFailed (butlast (filter isComponentCall (fst (snd (Reconcile r req w))))) = [] \<and>
           (filter componentFailed (fst (snd (Reconcile r req w))) \<noteq> [] \<longrightarrow>
              snd (snd (Reconcile r req w)) = w') \<and>
           (\<forall>i x res. IngressReconcile i x res \<in> set (fst (snd (Reconcile r req w))) \<longrightarrow> x = obj')) \<and>
        hd (filter isComponentCall (fst (snd (Reconcile r req w)))) =
          ComponentReconcile (NewPredictor cfg) isvc
            (fst (componentReconcile r (NewPredictor cfg) isvc w2)) \<and>
        (filter componentFailed (fst (snd (Reconcile r req w))) = [] \<longrightarrow>
           componentCalls (fst (snd (Reconcile r req w))) = reconcilers cfg isvc) \<and>
        (Transformer (Spec isvc) = None \<and> Explainer (Spec isvc) = None \<longrightarrow>
           filter isComponentCall (fst (snd (Reconcile r req w))) =
             [ComponentReconcile (NewPredictor cfg) isvc
                (fst (componentReconcile r (NewPredictor cfg) isvc w2))])) \<and>
     (\<forall>err w2. NewInferenceServicesConfig r w1 = (Inl err, w2) \<longrightarrow>
        filter isComponentCall (fst (snd (Reconcile r req w))) = [])"
proof -
  let ?R = "fst (snd (Reconcile r req w))"
  let ?C = "fst (snd (converge r req w))"
  have shape: "hd (reconcilers cfg isvc) = NewPredictor cfg \<and>
        (NewTransformer cfg \<in> set (reconcilers cfg isvc) \<longleftrightarrow> Transformer (Spec isvc) \<noteq> None) \<and>
        (NewExplainer cfg \<in> set (reconcilers cfg isvc) \<longleftrightarrow> Explainer (Spec isvc) \<noteq> None) \<and>
        reconcilers cfg isvc =
          filter (\<lambda>c. c \<in> set (reconcilers cfg isvc))
            [NewPredictor cfg, NewTransformer cfg, NewExplainer cfg]" for cfg
    by (simp add: reconcilers_def)
  obtain rest where rest: "?R = ?C @ rest"
    "componentCalls rest = []" "ingressCalls rest = []" "filter componentFailed rest = []"
    using Reconcile_calls [of r req w] by blast
  have entries: "filter isComponentCall ?R = filter isComponentCall ?C"
    using rest(1) component_entries_counted [OF rest(2)] by simp
  have comps: "componentCalls ?R = componentCalls ?C"
    using rest by (simp add: calls_simps)
  have fails: "filter componentFailed ?R = filter componentFailed ?C"
    using rest by simp
  have loaded:
    "(\<exists>n obj' w'.
           0 < n \<and>
           componentCalls ?R = take n (reconcilers cfg isvc) \<and>
           replay r isvc w2 (filter isComponentCall ?R) = Some (obj', w') \<and>
           filter componentFailed (butlast (filter isComponentCall ?R)) = [] \<and>
           (filter componentFailed ?R \<noteq> [] \<longrightarrow> snd (snd (Reconcile r req w)) = w') \<and>
           (\<forall>i x res. IngressReconcile i x res \<in> set ?R \<longrightarrow> x = obj')) \<and>
        hd (filter isComponentCall ?R) =
          ComponentReconcile (NewPredictor cfg) isvc
            (fst (componentReconcile r (NewPredictor cfg) isvc w2)) \<and>
        (filter componentFailed ?R = [] \<longrightarrow> componentCalls ?R = reconcilers cfg isvc) \<and>
        (Transformer (Spec isvc) = None \<and> Explainer (Spec isvc) = None \<longrightarrow>
           filter isComponentCall ?R =
             [ComponentReconcile (NewPredictor cfg) isvc
                (fst (componentReconcile r (NewPredictor cfg) isvc w2))])"
    if cfg: "NewInferenceServicesConfig r w1 = (Inr cfg, w2)" for cfg w2
  proof -
    from converge_components [OF assms cfg] obtain n obj' w' where
      n: "0 < n" "componentCalls ?C = take n (reconcilers cfg isvc)"
        "replay r isvc w2 (filter isComponentCall ?C) = Some (obj', w')"
        "filter componentFailed (butlast (filter isComponentCall ?C)) = []"
        "filter componentFailed ?C = [] \<longrightarrow> n = length (reconcilers cfg isvc)"
        "filter componentFailed ?C \<noteq> [] \<longrightarrow>
           snd (snd (converge r req w)) = w' \<and> (\<exists>ret. fst (converge r req w) = Inl ret)"
        "\<forall>i x res. IngressReconcile i x res \<in> set ?C \<longrightarrow> x = obj'"
      by blast
    have world: "snd (snd (Reconcile r req w)) = w'" if "filter componentFailed ?R \<noteq> []"
    proof -
      from that fails n(6) obtain ret where "snd (snd (converge r req w)) = w'"
        "fst (converge r req w) = Inl ret" by auto
      with Reconcile_of_converge_Inl [OF this(2)] show ?thesis by simp
    qed
    have ingress: "x = obj'" if "IngressReconcile i x res \<in> set ?R" for i x res
    proof -
      from that rest(1) have "IngressReconcile i x res \<in> set ?C \<or> IngressReconcile i x res \<in> set rest"
        by auto
      with ingress_entry_counted rest(3) n(7) show ?thesis by blast
    qed
    have ne: "componentCalls ?C \<noteq> []" and h: "hd (componentCalls ?C) = NewPredictor cfg"
      using n(1,2) by (cases n; simp add: reconcilers_def)+
    from first_component_entry [OF ne] h obtain obj res where
      e: "filter isComponentCall ?C \<noteq> []"
         "hd (filter isComponentCall ?C) = ComponentReconcile (NewPredictor cfg) obj res"
      by auto
    from replay_first [OF n(3) e] have first: "hd (filter isComponentCall ?C) =
        ComponentReconcile (NewPredictor cfg) isvc (fst (componentReconcile r (NewPredictor cfg) isvc w2))"
      using e(2) by simp
    have only: "filter isComponentCall ?C =
        [ComponentReconcile (NewPredictor cfg) isvc (fst (componentReconcile r (NewPredictor cfg) isvc w2))]"
      if "Transformer (Spec isvc) = None \<and> Explainer (Spec isvc) = None"
    proof -
      from that n(1,2) have "componentCalls ?C = [NewPredictor cfg]"
        by (cases n) (simp_all add: reconcilers_def)
      then have "length (filter isComponentCall ?C) = 1"
        by (simp add: length_component_entries)
      then obtain a where "filter isComponentCall ?C = [a]"
        by (cases "filter isComponentCall ?C") auto
      with first show ?thesis by simp
    qed
    have whole: "componentCalls ?C = reconcilers cfg isvc" if "filter componentFailed ?C = []"
      using that n(2,5) by simp
    have "\<exists>n obj' w'.
           0 < n \<and>
           componentCalls ?R = take n (reconcilers cfg isvc) \<and>
           replay r isvc w2 (filter isComponentCall ?R) = Some (obj', w') \<and>
           filter componentFailed (butlast (filter isComponentCall ?R)) = [] \<and>
           (filter componentFailed ?R \<noteq> [] \<longrightarrow> snd (snd (Reconcile r req w)) = w') \<and>
           (\<forall>i x res. IngressReconcile i x res \<in> set ?R \<longrightarrow> x = obj')"
      unfolding entries comps using n(1,2,3,4) world ingress by blast
    then show ?thesis
      unfolding entries comps fails using first only whole by blast
  qed
  have unloaded: "filter isComponentCall ?R = []"
    if cfg: "NewInferenceServicesConfig r w1 = (Inl err, w2)" for err w2
  proof -
    have "filter isComponentCall ?C = []"
      by (cases rule: converge_cases [of r req w])
         (use assms cfg in \<open>simp_all add: fetched_def\<close>)
    with entries show ?thesis by simp
  qed
  show ?thesis using shape loaded unloaded by blast
qed

theorem Reconcile_component_order_witness:
  "clientGet full irisKey 0 = (Inr (iris (Some ''scaler'') (Some ''alibi'') unknown), 1) \<and>
   NewInferenceServicesConfig full 1 = (Inr ''config'', 1) \<and>
   filter componentFailed (fst (snd (Reconcile full irisKey 0))) = [] \<and>
   componentCalls (fst (snd (Reconcile full irisKey 0))) =
     [NewPredictor ''config'', NewTransformer ''config'', NewExplainer ''config''] \<and>
   hd (filter isComponentCall (fst (snd (Reconcile full irisKey 0)))) =
     ComponentReconcile (NewPredictor ''config'') (iris (Some ''scaler'') (Some ''alibi'') unknown) None \<and>
   clientGet rollout irisKey 0 = (Inr (iris None None unknown), 1) \<and>
   NewInferenceServicesConfig rollout 1 = (Inr ''config'', 1) \<and>
   filter isComponentCall (fst (snd (Reconcile rollout irisKey 0))) =
     [ComponentReconcile (NewPredictor ''config'') (iris None None unknown) None] \<and>
   clientGet predictorDown irisKey 0 = (Inr (iris (Some ''scaler'') None ready), 1) \<and>
   NewInferenceServicesConfig predictorDown 1 = (Inr ''config'', 1) \<and>
   hd (filter isComponentCall (fst (snd (Reconcile predictorDown irisKey 0)))) =
     ComponentReconcile (NewPredictor ''config'') (iris (Some ''scaler'') None ready)
       (Some (New ''no capacity'')) \<and>
   componentCalls (fst (snd (Reconcile predictorDown irisKey 0))) = [NewPredictor ''config'']"
proof -
  have g1: "clientGet full irisKey 0 = (Inr (iris (Some ''scaler'') (Some ''alibi'') unknown), 1)"
    and c1: "NewInferenceServicesConfig full 1 = (Inr ''config'', 1)"
    and r1: "fst (componentReconcile full (NewPredictor ''config'')
               (iris (Some ''scaler'') (Some ''alibi'') unknown) 1) = None"
    by (simp_all add: full_def script_simps)
  have ok: "filter componentFailed (fst (snd (Reconcile full irisKey 0))) = []"
    by (simp add: full_def pass_simps)
  have l: "reconcilers ''config'' (iris (Some ''scaler'') (Some ''alibi'') unknown) =
     [NewPredictor ''config'', NewTransformer ''config'', NewExplainer ''config'']"
    by (simp add: reconcilers_def iris_def)
  have g2: "clientGet rollout irisKey 0 = (Inr (iris None None unknown), 1)"
    and c2: "NewInferenceServicesConfig rollout 1 = (Inr ''config'', 1)"
    and r2: "fst (componentReconcile rollout (NewPredictor ''config'') (iris None None unknown) 1) = None"
    by (simp_all add: rollout_def script_simps)
  have sp: "Transformer (Spec (iris None None unknown)) = None"
    "Explainer (Spec (iris None None unknown)) = None"
    by (simp_all add: iris_def)
  have g3: "clientGet predictorDown irisKey 0 = (Inr (iris (Some ''scaler'') None ready), 1)"
    and c3: "NewInferenceServicesConfig predictorDown 1 = (Inr ''config'', 1)"
    and r3: "fst (componentReconcile predictorDown (NewPredictor ''config'')
               (iris (Some ''scaler'') None ready) 1) = Some (New ''no capacity'')"
    by (simp_all add: predictorDown_def script_simps)
  have stop: "componentCalls (fst (snd (Reconcile predictorDown irisKey 0))) = [NewPredictor ''config'']"
    by (simp add: predictorDown_def pass_simps)
  show ?thesis
    using g1 c1 r1 ok l g2 c2 r2 sp g3 c3 r3 stop
      Reconcile_component_order [OF g1] Reconcile_component_order [OF g2]
      Reconcile_component_order [OF g3]
    by simp
qed

text \<open>
  A fetched object that requests neither optional component, with a component
  configuration that does not load: lines 77 to 80 return before the list is built, and
  no reconciler is invoked, not even the predictor's.
\<close>

theorem Reconcile_config_failure_invokes_nothing:
  "clientGet misconfigured irisKey 0 = (Inr (iris None None unknown), 1) \<and>
   Transformer (Spec (iris None None unknown)) = None \<and>
   Explainer (Spec (iris None None unknown)) = None \<and>
   NewInferenceServicesConfig misconfigured 1 = (Inl (New ''no configmap''), 1) \<and>
   componentCalls (fst (snd (Reconcile misconfigured irisKey 0))) = [] \<and>
   \<not> (\<exists>c obj res. ComponentReconcile c obj res \<in> set (fst (snd (Reconcile misconfigured irisKey 0)))) \<and>
   snd (fst (Reconcile misconfigured irisKey 0)) =
     Some (Wrapf (New ''no configmap'') ''fails to create InferenceServicesConfig'')"
  by (simp add: misconfigured_def pass_simps)

text \<open>
  Claim C2, as the code has it. In a pass in which a component reconciler fails, the failing
  invocation is followed by one error log entry and one warning notification attached to
  the object as that reconciler left it, and by nothing else: no later component, no
  ingress reconciler, no fetch for a status commit and no store write. \<^verbatim>\<open>Reconcile\<close>
  returns the failure wrapped with the fixed message "fails to reconcile component"; the
  reconciler that failed is named in the log entry only.
\<close>

theorem Reconcile_component_failure:
  assumes "ComponentReconcile c isvc0 (Some e) \<in> set (fst (snd (Reconcile r req w)))"
  shows "snd (fst (Reconcile r req w)) = Some (Wrapf e ''fails to reconcile component'') \<and>
     (\<exists>before obj.
        fst (snd (Reconcile r req w)) = before @
          [ComponentReconcile c isvc0 (Some e),
           LogError e ''Failed to reconcile''
             [(''reconciler'', LReconciler c), (''Name'', LString (Name obj))],
           Eventf obj EventTypeWarning ''InternalError'' (Error e) []] \<and>
        (\<exists>w0 w'. componentReconcile r c isvc0 w0 = (Some e, obj, w')) \<and>
        events (fst (snd (Reconcile r req w))) =
          [Eventf obj EventTypeWarning ''InternalError'' (Error e) []]) \<and>
     ingressCalls (fst (snd (Reconcile r req w))) = [] \<and>
     storeWrites (fst (snd (Reconcile r req w))) = [] \<and>
     storeGets (fst (snd (Reconcile r req w))) = [req]"
proof -
  obtain rest where rest: "fst (snd (Reconcile r req w)) = fst (snd (converge r req w)) @ rest"
    "filter componentFailed rest = []"
    "\<forall>ret. fst (converge r req w) = Inl ret \<longrightarrow> rest = [] \<and> fst (Reconcile r req w) = ret"
    using Reconcile_calls [of r req w] by blast
  from assms have "ComponentReconcile c isvc0 (Some e) \<in>
      set (filter componentFailed (fst (snd (Reconcile r req w))))"
    by simp
  with rest have m: "ComponentReconcile c isvc0 (Some e) \<in>
      set (filter componentFailed (fst (snd (converge r req w))))"
    by simp
  show ?thesis
  proof (cases rule: converge_cases [of r req w])
    case (fetch_failed err w1)
    with m show ?thesis by simp
  next
    case (config_failed isvc w1 err w2)
    with m show ?thesis by (simp add: fetched_calls)
  next
    case (component_failed isvc w1 cfg w2 err isvc1 calls w3)
    from reconcileComponents_failed [OF component_failed(3)] obtain dn c' rst isvc0' w0 e' oks where
      f: "componentReconcile r c' isvc0' w0 = (Some e', isvc1, w3)"
         "err = Wrapf e' ''fails to reconcile component''"
         "calls = oks @
           [ComponentReconcile c' isvc0' (Some e'),
            LogError e' ''Failed to reconcile''
              [(''reconciler'', LReconciler c'), (''Name'', LString (Name isvc1))],
            Eventf isvc1 EventTypeWarning ''InternalError'' (Error e') []]"
         "events oks = []" "storeWrites oks = []" "storeGets oks = []" "ingressCalls oks = []"
         "filter componentFailed oks = []"
      by blast
    from m component_failed(4) f have eq: "c' = c" "isvc0' = isvc0" "e' = e"
      by (simp_all add: fetched_calls)
    from rest(3) component_failed(4) have r: "rest = []"
      "fst (Reconcile r req w) = (Result_zero, Some err)" by simp_all
    have calls: "fst (snd (Reconcile r req w)) =
        (fetched req isvc @ [LoadInferenceServicesConfig (Inr cfg)] @ oks) @
          [ComponentReconcile c isvc0 (Some e),
           LogError e ''Failed to reconcile''
             [(''reconciler'', LReconciler c), (''Name'', LString (Name isvc1))],
           Eventf isvc1 EventTypeWarning ''InternalError'' (Error e) []]"
      using rest(1) r(1) component_failed(4) f(3) eq by simp
    have "events (fst (snd (Reconcile r req w))) =
            [Eventf isvc1 EventTypeWarning ''InternalError'' (Error e) []]"
      "ingressCalls (fst (snd (Reconcile r req w))) = []"
      "storeWrites (fst (snd (Reconcile r req w))) = []"
      "storeGets (fst (snd (Reconcile r req w))) = [req]"
      unfolding calls using f by (simp_all add: calls_simps fetched_calls)
    moreover have "snd (fst (Reconcile r req w)) = Some (Wrapf e ''fails to reconcile component'')"
      using r(2) f(2) eq by simp
    moreover have "\<exists>w0 w'. componentReconcile r c isvc0 w0 = (Some e, isvc1, w')"
      using f(1) eq by blast
    ultimately show ?thesis using calls by blast
  next
    case (ingress_config_failed isvc w1 cfg w2 isvc1 calls w3 err w4)
    from reconcileComponents_ok [OF ingress_config_failed(3)] m ingress_config_failed(5)
    show ?thesis by (simp add: fetched_calls)
  next
    case (ingress_done isvc w1 cfg w2 isvc1 calls w3 icfg w4 res isvc2 w5)
    from reconcileComponents_ok [OF ingress_done(3)] m ingress_done(6)
    show ?thesis by (simp add: fetched_calls)
  qed
qed

theorem Reconcile_component_failure_witness:
  "ComponentReconcile (NewPredictor ''config'') (iris (Some ''scaler'') None ready)
     (Some (New ''no capacity'')) \<in> set (fst (snd (Reconcile predictorDown irisKey 0))) \<and>
   snd (fst (Reconcile predictorDown irisKey 0)) =
     Some (Wrapf (New ''no capacity'') ''fails to reconcile component'') \<and>
   length (events (fst (snd (Reconcile predictorDown irisKey 0)))) = 1 \<and>
   componentCalls (fst (snd (Reconcile predictorDown irisKey 0))) = [NewPredictor ''config''] \<and>
   ingressCalls (fst (snd (Reconcile predictorDown irisKey 0))) = [] \<and>
   storeWrites (fst (snd (Reconcile predictorDown irisKey 0))) = [] \<and>
   storeGets (fst (snd (Reconcile predictorDown irisKey 0))) = [irisKey]"
proof -
  have h: "ComponentReconcile (NewPredictor ''config'') (iris (Some ''scaler'') None ready)
     (Some (New ''no capacity'')) \<in> set (fst (snd (Reconcile predictorDown irisKey 0)))"
    by (simp add: predictorDown_def pass_simps)
  have c: "componentCalls (fst (snd (Reconcile predictorDown irisKey 0))) = [NewPredictor ''config'']"
    by (simp add: predictorDown_def pass_simps)
  from Reconcile_component_failure [OF h] h c show ?thesis by auto
qed

text \<open>
  The returned error does not tell which component failed: the predictor failing and the
  transformer failing with the same cause give the same returned error.
\<close>

theorem Reconcile_error_hides_component:
  "ComponentReconcile (NewPredictor ''config'') (iris (Some ''scaler'') None ready)
     (Some (New ''no capacity'')) \<in> set (fst (snd (Reconcile predictorDown irisKey 0))) \<and>
   ComponentReconcile (NewTransformer ''config'') (iris (Some ''scaler'') None ready)
     (Some (New ''no capacity'')) \<in> set (fst (snd (Reconcile transformerDown irisKey 0))) \<and>
   snd (fst (Reconcile predictorDown irisKey 0)) =
     Some (Wrapf (New ''no capacity'') ''fails to reconcile component'') \<and>
   snd (fst (Reconcile transformerDown irisKey 0)) = snd (fst (Reconcile predictorDown irisKey 0))"
  by (simp add: predictorDown_def transformerDown_def pass_simps)

text \<open>
  Claim C6, as the code has it. In a pass in which the ingress reconciler fails, every
  component reconciler has succeeded, the failing invocation is the last call of the pass,
  \<^verbatim>\<open>Reconcile\<close> returns the failure wrapped with the message "fails to reconcile ingress",
  and there is no fetch for a status commit, no store write and no notification.
\<close>

theorem Reconcile_ingress_failure:
  assumes "IngressReconcile i isvc1 (Some e) \<in> set (fst (snd (Reconcile r req w)))"
  shows "snd (fst (Reconcile r req w)) = Some (Wrapf e ''fails to reconcile ingress'') \<and>
     (\<exists>before. fst (snd (Reconcile r req w)) = before @ [IngressReconcile i isvc1 (Some e)]) \<and>
     filter componentFailed (fst (snd (Reconcile r req w))) = [] \<and>
     events (fst (snd (Reconcile r req w))) = [] \<and>
     storeWrites (fst (snd (Reconcile r req w))) = [] \<and>
     storeGets (fst (snd (Reconcile r req w))) = [req]"
proof -
  obtain rest where rest: "fst (snd (Reconcile r req w)) = fst (snd (converge r req w)) @ rest"
    "filter ingressFailed rest = []"
    "\<forall>ret. fst (converge r req w) = Inl ret \<longrightarrow> rest = [] \<and> fst (Reconcile r req w) = ret"
    using Reconcile_calls [of r req w] by blast
  from assms have "IngressReconcile i isvc1 (Some e) \<in>
      set (filter ingressFailed (fst (snd (Reconcile r req w))))"
    by simp
  with rest have m: "IngressReconcile i isvc1 (Some e) \<in>
      set (filter ingressFailed (fst (snd (converge r req w))))"
    by simp
  show ?thesis
  proof (cases rule: converge_cases [of r req w])
    case (fetch_failed err w1)
    with m show ?thesis by simp
  next
    case (config_failed isvc w1 err w2)
    with m show ?thesis by (simp add: fetched_calls)
  next
    case (component_failed isvc w1 cfg w2 err isvc1' calls w3)
    from reconcileComponents_failed [OF component_failed(3)] obtain oks c' isvc0 e' where
      "calls = oks @
           [ComponentReconcile c' isvc0 (Some e'),
            LogError e' ''Failed to reconcile''
              [(''reconciler'', LReconciler c'), (''Name'', LString (Name isvc1'))],
            Eventf isvc1' EventTypeWarning ''InternalError'' (Error e') []]"
      "filter ingressFailed oks = []"
      by blast
    with component_failed(4) have "filter ingressFailed (fst (snd (converge r req w))) = []"
      by (simp add: fetched_calls)
    with m show ?thesis by simp
  next
    case (ingress_config_failed isvc w1 cfg w2 isvc1' calls w3 err w4)
    from reconcileComponents_ok [OF ingress_config_failed(3)] m ingress_config_failed(5)
    show ?thesis by (simp add: fetched_calls)
  next
    case (ingress_done isvc w1 cfg w2 isvc1' calls w3 icfg w4 res isvc2 w5)
    note ok = reconcileComponents_ok [OF ingress_done(3)]
    from m ingress_done(6) ok have eq: "i = NewIngressReconciler icfg" "isvc1' = isvc1" "res = Some e"
      by (simp_all add: fetched_calls split: if_splits)
    from rest(3) ingress_done(6) eq have r: "rest = []"
      "fst (Reconcile r req w) = (Result_zero, Some (Wrapf e ''fails to reconcile ingress''))"
      by simp_all
    have calls: "fst (snd (Reconcile r req w)) =
        (fetched req isvc @ [LoadInferenceServicesConfig (Inr cfg)] @ calls @
         [LoadIngressConfig (Inr icfg),
          LogInfo ''Reconciling ingress for inference service'' [(''isvc'', LString (Name isvc1))]]) @
        [IngressReconcile i isvc1 (Some e)]"
      using rest(1) r(1) ingress_done(6) eq by simp
    have "filter componentFailed (fst (snd (Reconcile r req w))) = []"
      "events (fst (snd (Reconcile r req w))) = []"
      "storeWrites (fst (snd (Reconcile r req w))) = []"
      "storeGets (fst (snd (Reconcile r req w))) = [req]"
      unfolding calls using ok by (simp_all add: calls_simps fetched_calls)
    moreover have "snd (fst (Reconcile r req w)) = Some (Wrapf e ''fails to reconcile ingress'')"
      using r(2) by simp
    ultimately show ?thesis using calls by blast
  qed
qed

theorem Reconcile_ingress_failure_witness:
  "IngressReconcile (NewIngressReconciler ''ingress'') (iris None None ready)
     (Some (New ''no gateway'')) \<in> set (fst (snd (Reconcile ingressDown irisKey 0))) \<and>
   snd (fst (Reconcile ingressDown irisKey 0)) =
     Some (Wrapf (New ''no gateway'') ''fails to reconcile ingress'') \<and>
   filter componentFailed (fst (snd (Reconcile ingressDown irisKey 0))) = [] \<and>
   events (fst (snd (Reconcile ingressDown irisKey 0))) = [] \<and>
   storeWrites (fst (snd (Reconcile ingressDown irisKey 0))) = [] \<and>
   storeGets (fst (snd (Reconcile ingressDown irisKey 0))) = [irisKey]"
proof -
  have h: "IngressReconcile (NewIngressReconciler ''ingress'') (iris None None ready)
     (Some (New ''no gateway'')) \<in> set (fst (snd (Reconcile ingressDown irisKey 0)))"
    by (simp add: ingressDown_def pass_simps)
  from Reconcile_ingress_failure [OF h] h show ?thesis by simp
qed

text \<open>
  A pass in which the only component succeeds and the ingress reconciler fails: no
  warning notification is emitted, indeed no notification at all.
\<close>

theorem Reconcile_ingress_failure_silent:
  "IngressReconcile (NewIngressReconciler ''ingress'') (iris None None ready)
     (Some (New ''no gateway'')) \<in> set (fst (snd (Reconcile ingressDown irisKey 0))) \<and>
   componentCalls (fst (snd (Reconcile ingressDown irisKey 0))) = [NewPredictor ''config''] \<and>
   filter componentFailed (fst (snd (Reconcile ingressDown irisKey 0))) = [] \<and>
   snd (fst (Reconcile ingressDown irisKey 0)) =
     Some (Wrapf (New ''no gateway'') ''fails to reconcile ingress'') \<and>
   \<not> (\<exists>obj reason fmt args.
        Eventf obj EventTypeWarning reason fmt args \<in> set (fst (snd (Reconcile ingressDown irisKey 0)))) \<and>
   events (fst (snd (Reconcile ingressDown irisKey 0))) = []"
  by (simp add: ingressDown_def pass_simps calls_simps fetched_def)

end
